theory Spec2Isabelle
  imports Complex_Main "HOL-Library.Multiset" "HOL-Library.Word"
begin

section \<open>Numbers\<close>

text \<open>
  The program computes with Python floats and numpy float64 values. The embedding takes a
  finite float as the exact rational it denotes and every arithmetic operation as the exact
  one: the rounding error of a single float64 operation (about 1e-16 relative), overflow,
  and the values inf and nan as inputs are outside the model. The one place where the
  program itself produces inf or nan from finite inputs, the numpy division by a zero share
  total, is a case of its own in \<open>add_expense_shares\<close>. Where the exact value of an
  operand of \<open>np.round\<close> lies at a half cent, its float64 value decides which way the
  code rounds; the embedding rounds to the even cent there, and the properties below that
  depend on the direction leave such ties out.
\<close>

text \<open>\<open>np.rint\<close>: the nearest integer, a tie going to the even neighbour.\<close>

definition np_rint :: "rat \<Rightarrow> int" where
  "np_rint x =
     (let f = \<lfloor>x\<rfloor>; d = x - of_int f
      in if d < 1 / 2 then f
         else if 1 / 2 < d then f + 1
         else if even f then f else f + 1)"

text \<open>\<open>np.round(x, 2)\<close>: numpy scales by 100, rounds to an integer and scales back.\<close>

definition np_round2 :: "rat \<Rightarrow> rat" where
  "np_round2 x = of_int (np_rint (x * 100)) / 100"

text \<open>\<open>np.isclose(a, b)\<close> with its default tolerances \<open>rtol = 1e-05\<close>, \<open>atol = 1e-08\<close>.\<close>

definition np_isclose :: "rat \<Rightarrow> rat \<Rightarrow> bool" where
  "np_isclose a b \<longleftrightarrow> \<bar>a - b\<bar> \<le> 1 / 100000000 + 1 / 100000 * \<bar>b\<bar>"

section \<open>Data model (models.py)\<close>

datatype SplitMethod = EQUAL | PERCENTAGE | SHARES | CUSTOM

text \<open>
  The fields \<open>id\<close> of Expense and Group, \<open>date\<close> and \<open>created_at\<close> are filled by
  \<open>uuid4\<close> and \<open>datetime.now\<close>; no operation of the calculator or of the optimizer
  reads them, and they are left out. Field names that two classes share carry the class as
  a prefix.
\<close>

record Participant =
  name :: string
  pid :: string
  email :: "string option"

record ExpenseSplit =
  participant_id :: string
  amount :: rat
  percentage :: "rat option"
  shares :: "int option"

record Expense =
  description :: string
  total_amount :: rat
  paid_by :: string
  currency :: string
  split_method :: SplitMethod
  splits :: "ExpenseSplit list"
  is_recurring :: bool
  category :: "string option"

record Settlement =
  from_participant :: string
  to_participant :: string
  settlement_amount :: rat
  settlement_currency :: string

record Group =
  group_name :: string
  participants :: "Participant list"
  expenses :: "Expense list"
  base_currency :: string

datatype py_error = ValueError | KeyError | ZeroDivisionError | IndexError

text \<open>\<open>Group.get_participant_by_id\<close>: the first participant with that id, or None.\<close>

fun find_participant :: "Participant list \<Rightarrow> string \<Rightarrow> Participant option" where
  "find_participant [] i = None"
| "find_participant (p # ps) i = (if pid p = i then Some p else find_participant ps i)"

definition get_participant_by_id :: "Group \<Rightarrow> string \<Rightarrow> Participant option" where
  "get_participant_by_id g i = find_participant (participants g) i"

section \<open>Split allocators (expense_calculator.py)\<close>

text \<open>
  An allocator is a method of a calculator that holds the group. It returns what the call
  gives (\<open>Inl\<close> the exception raised, \<open>Inr\<close> the expense returned) together with the
  group as the call leaves it.
\<close>

definition add_expense_equal ::
  "Group \<Rightarrow> string \<Rightarrow> rat \<Rightarrow> string \<Rightarrow> string list option \<Rightarrow> string \<Rightarrow> string option
     \<Rightarrow> (py_error + Expense) \<times> Group" where
  "add_expense_equal g descr total_amt paid participants_arg cur cat =
     (let ps = (case participants_arg of
                  None \<Rightarrow> map pid (participants g)
                | Some l \<Rightarrow> l);
          n = length ps
      in if n = 0 then (Inl ZeroDivisionError, g)
         else
           let amount_per_person = np_round2 (total_amt / of_nat n);
               amounts = replicate n amount_per_person;
               remainder = total_amt - sum_list amounts;
               amounts' = (if remainder \<noteq> 0
                           then amounts[0 := amounts ! 0 + np_round2 remainder]
                           else amounts);
               expense = \<lparr>description = descr, total_amount = total_amt, paid_by = paid,
                          currency = cur, split_method = EQUAL,
                          splits = map (\<lambda>(p, amt). \<lparr>participant_id = p, amount = amt,
                                                       percentage = None, shares = None\<rparr>)
                                       (zip ps amounts'),
                          is_recurring = False, category = cat\<rparr>
           in (Inr expense, g\<lparr>expenses := expenses g @ [expense]\<rparr>))"


text \<open>
  The dictionary arguments of the other three allocators are association lists in the
  insertion order of the dictionary, which is the order their items are read in.
\<close>

definition add_expense_percentage ::
  "Group \<Rightarrow> string \<Rightarrow> rat \<Rightarrow> string \<Rightarrow> (string \<times> rat) list \<Rightarrow> string \<Rightarrow> string option
     \<Rightarrow> (py_error + Expense) \<times> Group" where
  "add_expense_percentage g descr total_amt paid percentages cur cat =
     (if \<not> np_isclose (sum_list (map snd percentages)) 100 then (Inl ValueError, g)
      else
        let expense = \<lparr>description = descr, total_amount = total_amt, paid_by = paid,
                         currency = cur, split_method = PERCENTAGE,
                         splits = map (\<lambda>(p, pct). \<lparr>participant_id = p,
                                          amount = np_round2 (total_amt * (pct / 100)),
                                          percentage = Some pct, shares = None\<rparr>)
                                      percentages,
                         is_recurring = False, category = cat\<rparr>
        in (Inr expense, g\<lparr>expenses := expenses g @ [expense]\<rparr>))"

text \<open>
  In \<open>add_expense_shares\<close> the share counts go through \<open>np.array(...).sum()\<close>: numpy
  holds them as int64 and the sum wraps around, so they are 64-bit words here, read as
  signed. \<open>share_count / total_shares\<close> then divides by a numpy scalar: by zero that is
  inf or nan with a RuntimeWarning, not an exception, and the product, its rounding and
  the stored amount are inf or nan as well.
\<close>

datatype np_float = Fin rat | PosInf | NegInf | NaN

definition np_true_divide :: "int \<Rightarrow> int \<Rightarrow> np_float" where
  "np_true_divide a b =
     (if b \<noteq> 0 then Fin (of_int a / of_int b)
      else if 0 < a then PosInf else if a < 0 then NegInf else NaN)"

fun np_multiply :: "rat \<Rightarrow> np_float \<Rightarrow> np_float" where
  "np_multiply t (Fin x) = Fin (t * x)"
| "np_multiply t PosInf = (if 0 < t then PosInf else if t < 0 then NegInf else NaN)"
| "np_multiply t NegInf = (if 0 < t then NegInf else if t < 0 then PosInf else NaN)"
| "np_multiply t NaN = NaN"

fun np_round2_float :: "np_float \<Rightarrow> np_float" where
  "np_round2_float (Fin x) = Fin (np_round2 x)"
| "np_round2_float x = x"

text \<open>The amounts of a list when all of them are finite.\<close>

fun finite_amounts :: "np_float list \<Rightarrow> rat list option" where
  "finite_amounts [] = Some []"
| "finite_amounts (Fin x # xs) = map_option ((#) x) (finite_amounts xs)"
| "finite_amounts (_ # xs) = None"

text \<open>
  The amounts of the records above are finite. An expense with an amount that is inf or
  nan, and the group that holds it, are values of the records below: the same fields, the
  amount of a split an \<open>np_float\<close>.
\<close>

record FloatSplit =
  fs_participant_id :: string
  fs_amount :: np_float
  fs_percentage :: "rat option"
  fs_shares :: "int option"

record FloatExpense =
  fe_description :: string
  fe_total_amount :: rat
  fe_paid_by :: string
  fe_currency :: string
  fe_split_method :: SplitMethod
  fe_splits :: "FloatSplit list"
  fe_is_recurring :: bool
  fe_category :: "string option"

record FloatGroup =
  fg_group_name :: string
  fg_participants :: "Participant list"
  fg_expenses :: "FloatExpense list"
  fg_base_currency :: string

definition float_split :: "ExpenseSplit \<Rightarrow> FloatSplit" where
  "float_split s =
     \<lparr>fs_participant_id = participant_id s, fs_amount = Fin (amount s),
      fs_percentage = percentage s, fs_shares = shares s\<rparr>"

definition float_expense :: "Expense \<Rightarrow> FloatExpense" where
  "float_expense e =
     \<lparr>fe_description = description e, fe_total_amount = total_amount e,
      fe_paid_by = paid_by e, fe_currency = currency e, fe_split_method = split_method e,
      fe_splits = map float_split (splits e), fe_is_recurring = is_recurring e,
      fe_category = category e\<rparr>"

definition float_group :: "Group \<Rightarrow> FloatGroup" where
  "float_group g =
     \<lparr>fg_group_name = group_name g, fg_participants = participants g,
      fg_expenses = map float_expense (expenses g), fg_base_currency = base_currency g\<rparr>"

text \<open>
  What a call of \<open>add_expense_shares\<close> gives: \<open>Finite\<close> when every amount is finite,
  with the result and the group as for the other allocators; \<open>Inf_or_NaN\<close> when an amount
  is inf or nan, with the expense that the call returns and the group that holds it.
\<close>

datatype shares_result =
  Finite "(py_error + Expense) \<times> Group"
| Inf_or_NaN "FloatExpense \<times> FloatGroup"

definition add_expense_shares ::
  "Group \<Rightarrow> string \<Rightarrow> rat \<Rightarrow> string \<Rightarrow> (string \<times> 64 word) list \<Rightarrow> string \<Rightarrow> string option
     \<Rightarrow> shares_result" where
  "add_expense_shares g descr total_amt paid shares_arg cur cat =
     (let total_shares = sint (sum_list (map snd shares_arg));
          amounts = map (\<lambda>(p, share_count).
                      np_round2_float (np_multiply total_amt
                        (np_true_divide (sint share_count) total_shares)))
                    shares_arg
      in case finite_amounts amounts of
           Some finite_list \<Rightarrow>
             let expense = \<lparr>description = descr, total_amount = total_amt, paid_by = paid,
                              currency = cur, split_method = SHARES,
                              splits = map (\<lambda>((p, share_count), amt). \<lparr>participant_id = p,
                                               amount = amt, percentage = None,
                                               shares = Some (sint share_count)\<rparr>)
                                           (zip shares_arg finite_list),
                              is_recurring = False, category = cat\<rparr>
             in Finite (Inr expense, g\<lparr>expenses := expenses g @ [expense]\<rparr>)
         | None \<Rightarrow>
             let expense = \<lparr>fe_description = descr, fe_total_amount = total_amt,
                              fe_paid_by = paid, fe_currency = cur, fe_split_method = SHARES,
                              fe_splits = map (\<lambda>((p, share_count), amt).
                                               \<lparr>fs_participant_id = p, fs_amount = amt,
                                                  fs_percentage = None,
                                                  fs_shares = Some (sint share_count)\<rparr>)
                                           (zip shares_arg amounts),
                              fe_is_recurring = False, fe_category = cat\<rparr>
             in Inf_or_NaN (expense,
                  (float_group g)\<lparr>fg_expenses := fg_expenses (float_group g) @ [expense]\<rparr>))"

definition add_expense_custom ::
  "Group \<Rightarrow> string \<Rightarrow> rat \<Rightarrow> string \<Rightarrow> (string \<times> rat) list \<Rightarrow> string \<Rightarrow> string option
     \<Rightarrow> (py_error + Expense) \<times> Group" where
  "add_expense_custom g descr total_amt paid custom_amounts cur cat =
     (if \<not> np_isclose (sum_list (map snd custom_amounts)) total_amt then (Inl ValueError, g)
      else
        let expense = \<lparr>description = descr, total_amount = total_amt, paid_by = paid,
                         currency = cur, split_method = CUSTOM,
                         splits = map (\<lambda>(p, amt). \<lparr>participant_id = p, amount = amt,
                                                      percentage = None, shares = None\<rparr>)
                                      custom_amounts,
                         is_recurring = False, category = cat\<rparr>
        in (Inr expense, g\<lparr>expenses := expenses g @ [expense]\<rparr>))"

section \<open>Balance aggregation (get_balances)\<close>

text \<open>
  \<open>balances[k] += v\<close> reads the entry first: a key that the dictionary does not hold
  raises KeyError.
\<close>

definition dict_add :: "(string \<rightharpoonup> rat) \<Rightarrow> string \<Rightarrow> rat \<Rightarrow> py_error + (string \<rightharpoonup> rat)" where
  "dict_add balances k v =
     (case balances k of None \<Rightarrow> Inl KeyError | Some b \<Rightarrow> Inr (balances(k \<mapsto> b + v)))"

fun debit_splits :: "(string \<rightharpoonup> rat) \<Rightarrow> ExpenseSplit list \<Rightarrow> py_error + (string \<rightharpoonup> rat)" where
  "debit_splits balances [] = Inr balances"
| "debit_splits balances (s # ss) =
     (case dict_add balances (participant_id s) (- amount s) of
        Inl e \<Rightarrow> Inl e
      | Inr balances' \<Rightarrow> debit_splits balances' ss)"

fun add_expenses :: "(string \<rightharpoonup> rat) \<Rightarrow> Expense list \<Rightarrow> py_error + (string \<rightharpoonup> rat)" where
  "add_expenses balances [] = Inr balances"
| "add_expenses balances (expense # es) =
     (case dict_add balances (paid_by expense) (total_amount expense) of
        Inl e \<Rightarrow> Inl e
      | Inr balances' \<Rightarrow>
          (case debit_splits balances' (splits expense) of
             Inl e \<Rightarrow> Inl e
           | Inr balances'' \<Rightarrow> add_expenses balances'' es))"

text \<open>A row of the DataFrame that \<open>get_balances\<close> returns.\<close>

record BalanceRow =
  row_participant_id :: string
  row_name :: string
  balance :: rat

fun build_rows :: "(string \<rightharpoonup> rat) \<Rightarrow> Participant list \<Rightarrow> py_error + BalanceRow list" where
  "build_rows balances [] = Inr []"
| "build_rows balances (p # ps) =
     (case balances (pid p) of
        None \<Rightarrow> Inl KeyError
      | Some b \<Rightarrow>
          (case build_rows balances ps of
             Inl e \<Rightarrow> Inl e
           | Inr rows \<Rightarrow> Inr (\<lparr>row_participant_id = pid p, row_name = name p,
                                balance = np_round2 b\<rparr> # rows)))"

definition get_balances :: "Group \<Rightarrow> py_error + BalanceRow list" where
  "get_balances g =
     (case add_expenses (map_of (map (\<lambda>p. (pid p, 0)) (participants g))) (expenses g) of
        Inl e \<Rightarrow> Inl e
      | Inr balances \<Rightarrow> build_rows balances (participants g))"

section \<open>Balance aggregation with the float64 rounding written out\<close>

text \<open>
  \<open>get_balances\<close> adds and subtracts in an order that the expense sequence fixes, and a
  float addition is not associative. Where that order matters the rounding of every
  operation is written out. \<open>f64\<close> rounds a rational to the nearest binary64 value, a tie
  going to the even significand: \<open>binade x\<close> is the exponent \<open>e\<close> with
  \<open>2^e \<le> |x| < 2^(e+1)\<close>, and the binary64 values of that binade are the multiples of
  \<open>2^(e-52)\<close>. The exponent range is not modelled (no overflow, no subnormal values);
  amounts of money are far from both.
\<close>

fun bit_length :: "nat \<Rightarrow> nat" where
  "bit_length n = (if n = 0 then 0 else Suc (bit_length (n div 2)))"

declare bit_length.simps [simp del]

definition binade :: "rat \<Rightarrow> int" where
  "binade x = (if 1 \<le> \<bar>x\<bar> then int (bit_length (nat \<lfloor>\<bar>x\<bar>\<rfloor>)) - 1
               else - int (bit_length (nat (\<lceil>1 / \<bar>x\<bar>\<rceil> - 1))))"

definition f64 :: "rat \<Rightarrow> rat" where
  "f64 x = (if x = 0 then 0
            else let ulp = 2 powi (binade x - 52) in of_int (np_rint (x / ulp)) * ulp)"

text \<open>\<open>np.round(x, 2)\<close> on a float64: the product, the quotient and their roundings.\<close>

definition np_round2_f64 :: "rat \<Rightarrow> rat" where
  "np_round2_f64 x = f64 (of_int (np_rint (f64 (x * 100))) / 100)"

text \<open>\<open>balances[k] += v\<close> and \<open>balances[k] -= v\<close> on floats.\<close>

definition dict_add_f64 ::
  "(string \<rightharpoonup> rat) \<Rightarrow> string \<Rightarrow> rat \<Rightarrow> py_error + (string \<rightharpoonup> rat)" where
  "dict_add_f64 balances k v =
     (case balances k of
        None \<Rightarrow> Inl KeyError
      | Some b \<Rightarrow> Inr (balances(k \<mapsto> f64 (b + v))))"

definition dict_sub_f64 ::
  "(string \<rightharpoonup> rat) \<Rightarrow> string \<Rightarrow> rat \<Rightarrow> py_error + (string \<rightharpoonup> rat)" where
  "dict_sub_f64 balances k v =
     (case balances k of
        None \<Rightarrow> Inl KeyError
      | Some b \<Rightarrow> Inr (balances(k \<mapsto> f64 (b - v))))"

fun debit_splits_f64 ::
  "(string \<rightharpoonup> rat) \<Rightarrow> ExpenseSplit list \<Rightarrow> py_error + (string \<rightharpoonup> rat)" where
  "debit_splits_f64 balances [] = Inr balances"
| "debit_splits_f64 balances (s # ss) =
     (case dict_sub_f64 balances (participant_id s) (amount s) of
        Inl e \<Rightarrow> Inl e
      | Inr balances' \<Rightarrow> debit_splits_f64 balances' ss)"

fun add_expenses_f64 ::
  "(string \<rightharpoonup> rat) \<Rightarrow> Expense list \<Rightarrow> py_error + (string \<rightharpoonup> rat)" where
  "add_expenses_f64 balances [] = Inr balances"
| "add_expenses_f64 balances (expense # es) =
     (case dict_add_f64 balances (paid_by expense) (total_amount expense) of
        Inl e \<Rightarrow> Inl e
      | Inr balances' \<Rightarrow>
          (case debit_splits_f64 balances' (splits expense) of
             Inl e \<Rightarrow> Inl e
           | Inr balances'' \<Rightarrow> add_expenses_f64 balances'' es))"

fun build_rows_f64 ::
  "(string \<rightharpoonup> rat) \<Rightarrow> Participant list \<Rightarrow> py_error + BalanceRow list" where
  "build_rows_f64 balances [] = Inr []"
| "build_rows_f64 balances (p # ps) =
     (case balances (pid p) of
        None \<Rightarrow> Inl KeyError
      | Some b \<Rightarrow>
          (case build_rows_f64 balances ps of
             Inl e \<Rightarrow> Inl e
           | Inr rows \<Rightarrow> Inr (\<lparr>row_participant_id = pid p, row_name = name p,
                                balance = np_round2_f64 b\<rparr> # rows)))"

definition get_balances_f64 :: "Group \<Rightarrow> py_error + BalanceRow list" where
  "get_balances_f64 g =
     (case add_expenses_f64 (map_of (map (\<lambda>p. (pid p, 0)) (participants g))) (expenses g) of
        Inl e \<Rightarrow> Inl e
      | Inr balances \<Rightarrow> build_rows_f64 balances (participants g))"

section \<open>Settlement planning (settlement.py)\<close>

text \<open>\<open>np.argmax\<close> and \<open>np.argmin\<close>: the first index of the largest (smallest) entry.\<close>

fun argmax_from :: "rat list \<Rightarrow> nat \<Rightarrow> nat \<Rightarrow> rat \<Rightarrow> nat" where
  "argmax_from [] i best_idx best = best_idx"
| "argmax_from (x # xs) i best_idx best =
     (if best < x then argmax_from xs (Suc i) i x else argmax_from xs (Suc i) best_idx best)"

fun argmin_from :: "rat list \<Rightarrow> nat \<Rightarrow> nat \<Rightarrow> rat \<Rightarrow> nat" where
  "argmin_from [] i best_idx best = best_idx"
| "argmin_from (x # xs) i best_idx best =
     (if x < best then argmin_from xs (Suc i) i x else argmin_from xs (Suc i) best_idx best)"

definition np_argmax :: "rat list \<Rightarrow> py_error + nat" where
  "np_argmax xs = (case xs of [] \<Rightarrow> Inl ValueError | x # xs' \<Rightarrow> Inr (argmax_from xs' 1 0 x))"

definition np_argmin :: "rat list \<Rightarrow> py_error + nat" where
  "np_argmin xs = (case xs of [] \<Rightarrow> Inl ValueError | x # xs' \<Rightarrow> Inr (argmin_from xs' 1 0 x))"

text \<open>
  One pass through the body of the \<open>while True\<close> loop on the working array:
  \<open>Inr None\<close> is a \<open>break\<close>, \<open>Inr (Some (s, balances'))\<close> the settlement recorded and the
  array after both updates, \<open>Inl\<close> an exception.
\<close>

definition settle_step ::
  "Group \<Rightarrow> string list \<Rightarrow> rat list \<Rightarrow> py_error + (Settlement \<times> rat list) option" where
  "settle_step g ps balances =
     (case np_argmax balances of
        Inl e \<Rightarrow> Inl e
      | Inr max_credit_idx \<Rightarrow>
     (case np_argmin balances of
        Inl e \<Rightarrow> Inl e
      | Inr max_debit_idx \<Rightarrow>
          let max_credit = balances ! max_credit_idx;
              max_debit = balances ! max_debit_idx
          in if max_credit < 1 / 100 \<and> \<bar>max_debit\<bar> < 1 / 100 then Inr None
             else
               let transfer_amount = np_round2 (min max_credit \<bar>max_debit\<bar>)
               in if transfer_amount < 1 / 100 then Inr None
                  else if length ps \<le> max_debit_idx \<or> length ps \<le> max_credit_idx
                  then Inl IndexError
                  else
                    let s = \<lparr>from_participant = ps ! max_debit_idx,
                               to_participant = ps ! max_credit_idx,
                               settlement_amount = transfer_amount,
                               settlement_currency = base_currency g\<rparr>;
                        balances1 = balances[max_credit_idx :=
                                      balances ! max_credit_idx - transfer_amount];
                        balances2 = balances1[max_debit_idx :=
                                      balances1 ! max_debit_idx + transfer_amount]
                    in Inr (Some (s, balances2))))"

partial_function (option) settle_loop ::
  "Group \<Rightarrow> string list \<Rightarrow> rat list \<Rightarrow> Settlement list \<Rightarrow> (py_error + Settlement list) option"
  where
  "settle_loop g ps balances settlements =
     (case settle_step g ps balances of
        Inl e \<Rightarrow> Some (Inl e)
      | Inr None \<Rightarrow> Some (Inr settlements)
      | Inr (Some (s, balances')) \<Rightarrow> settle_loop g ps balances' (settlements @ [s]))"

text \<open>
  \<open>calculate_optimal_settlements\<close>: the result of the call and the group as the call
  leaves it; \<open>None\<close> when the loop never ends. A DataFrame built from no rows has no
  columns, and reading its column \<open>participant_id\<close> raises KeyError.
\<close>

definition calculate_optimal_settlements ::
  "Group \<Rightarrow> ((py_error + Settlement list) \<times> Group) option" where
  "calculate_optimal_settlements g =
     (case get_balances g of
        Inl e \<Rightarrow> Some (Inl e, g)
      | Inr rows \<Rightarrow>
          if rows = [] then Some (Inl KeyError, g)
          else map_option (\<lambda>r. (r, g))
                 (settle_loop g (map row_participant_id rows) (map balance rows) []))"

section \<open>The planner on a heap\<close>

text \<open>
  The optimizer and its calculator hold the same Group object, whose \<open>participants\<close> and
  \<open>expenses\<close> are Python lists; \<open>get_balances\<close> builds a new table on every call, and the
  working array of the loop is the \<open>balance\<close> column of that table, updated in place. To
  say what a call changes, the lists and the arrays are objects of a heap, the group holds
  the addresses of its two lists, and a call allocates its table at the next unused
  address.
\<close>

datatype heap_obj = Participants "Participant list" | Expenses "Expense list" | Balances "rat list"

record Heap =
  objs :: "nat \<Rightarrow> heap_obj option"
  fresh :: nat

record GroupObj =
  obj_name :: string
  obj_participants :: nat
  obj_expenses :: nat
  obj_base_currency :: string

text \<open>
  Reading the group and an array off the heap. An address that holds no object of the
  kind expected reads as the empty list; no heap below has one.
\<close>

definition read_group :: "Heap \<Rightarrow> GroupObj \<Rightarrow> Group" where
  "read_group h r =
     \<lparr>group_name = obj_name r,
      participants = (case objs h (obj_participants r) of
                        Some (Participants ps) \<Rightarrow> ps | _ \<Rightarrow> []),
      expenses = (case objs h (obj_expenses r) of
                    Some (Expenses es) \<Rightarrow> es | _ \<Rightarrow> []),
      base_currency = obj_base_currency r\<rparr>"

definition read_balances :: "Heap \<Rightarrow> nat \<Rightarrow> rat list" where
  "read_balances h a = (case objs h a of Some (Balances bs) \<Rightarrow> bs | _ \<Rightarrow> [])"

text \<open>
  The loop on the array at address \<open>a\<close>: each pass reads the array and the group off the
  heap and writes the updated array back.
\<close>

partial_function (option) settle_loop_heap ::
  "Heap \<Rightarrow> GroupObj \<Rightarrow> string list \<Rightarrow> nat \<Rightarrow> Settlement list
     \<Rightarrow> ((py_error + Settlement list) \<times> Heap) option"
  where
  "settle_loop_heap h r ps a settlements =
     (case settle_step (read_group h r) ps (read_balances h a) of
        Inl e \<Rightarrow> Some (Inl e, h)
      | Inr None \<Rightarrow> Some (Inr settlements, h)
      | Inr (Some (s, balances')) \<Rightarrow>
          settle_loop_heap (h\<lparr>objs := (objs h)(a \<mapsto> Balances balances')\<rparr>) r ps a
            (settlements @ [s]))"

definition calculate_optimal_settlements_heap ::
  "Heap \<Rightarrow> GroupObj \<Rightarrow> ((py_error + Settlement list) \<times> Heap) option" where
  "calculate_optimal_settlements_heap h r =
     (case get_balances (read_group h r) of
        Inl e \<Rightarrow> Some (Inl e, h)
      | Inr rows \<Rightarrow>
          if rows = [] then Some (Inl KeyError, h)
          else
            let a = fresh h;
                h' = h\<lparr>objs := (objs h)(a \<mapsto> Balances (map balance rows)), fresh := Suc a\<rparr>
            in settle_loop_heap h' r (map row_participant_id rows) a [])"


section \<open>Notions used to state the properties\<close>

text \<open>
  The amounts of an equal split of \<open>t\<close> among \<open>n\<close> participants: everybody gets the
  rounded share, the first participant also the remainder rounded to 2 decimals.
\<close>

definition equal_amounts :: "rat \<Rightarrow> nat \<Rightarrow> rat list" where
  "equal_amounts t n =
     (let share = np_round2 (t / of_nat n)
      in (share + np_round2 (t - of_nat n * share)) # replicate (n - 1) share)"


text \<open>What the splits of a list debit participant \<open>i\<close>, and what an expense adds to the
  balance of \<open>i\<close>: the total if \<open>i\<close> paid, less the splits of \<open>i\<close>.\<close>

definition split_debit :: "string \<Rightarrow> ExpenseSplit list \<Rightarrow> rat" where
  "split_debit i ss = sum_list (map amount (filter (\<lambda>s. participant_id s = i) ss))"

definition expense_delta :: "string \<Rightarrow> Expense \<Rightarrow> rat" where
  "expense_delta i e = (if paid_by e = i then total_amount e else 0) - split_debit i (splits e)"

text \<open>Every id that an expense refers to is in the list \<open>ids\<close>.\<close>

definition refs_known :: "string list \<Rightarrow> Expense \<Rightarrow> bool" where
  "refs_known ids e \<longleftrightarrow>
     paid_by e \<in> set ids \<and> list_all (\<lambda>s. participant_id s \<in> set ids) (splits e)"

abbreviation ids_of :: "Group \<Rightarrow> string list" where
  "ids_of g \<equiv> map pid (participants g)"

text \<open>The table of balances in closed form: one row per participant, in order.\<close>

definition balance_rows :: "Group \<Rightarrow> BalanceRow list" where
  "balance_rows g =
     map (\<lambda>p. \<lparr>row_participant_id = pid p, row_name = name p,
               balance = np_round2 (sum_list (map (expense_delta (pid p)) (expenses g)))\<rparr>)
         (participants g)"

text \<open>A group of three participants with no expense yet, as the tests set it up.\<close>

definition demo_group :: Group where
  "demo_group =
     \<lparr>group_name = ''Test Group'',
      participants = [\<lparr>name = ''Ivan'', pid = ''p1'', email = None\<rparr>,
                      \<lparr>name = ''Maria'', pid = ''p2'', email = None\<rparr>,
                      \<lparr>name = ''Georgi'', pid = ''p3'', email = None\<rparr>],
      expenses = [], base_currency = ''BGN''\<rparr>"

text \<open>The group after two equal splits, and after a call that names an id nobody has.\<close>

definition trip_group :: Group where
  "trip_group =
     snd (add_expense_equal
            (snd (add_expense_equal demo_group ''Dinner'' 90 ''p1'' None ''BGN'' None))
            ''Taxi'' 30 ''p2'' None ''BGN'' None)"

definition ghost_group :: Group where
  "ghost_group =
     snd (add_expense_equal demo_group ''Taxi'' 30 ''ghost'' (Some [''p1'', ''nobody''])
            ''BGN'' None)"

text \<open>The group after two percentage splits of 1.10 at 33.3, 33.3 and 33.4 percent.\<close>

definition drift_group :: Group where
  "drift_group =
     snd (add_expense_percentage
            (snd (add_expense_percentage demo_group ''Snacks'' (110 / 100) ''p1''
                    [(''p1'', 333 / 10), (''p2'', 333 / 10), (''p3'', 334 / 10)] ''BGN'' None))
            ''Drinks'' (110 / 100) ''p1''
            [(''p1'', 333 / 10), (''p2'', 333 / 10), (''p3'', 334 / 10)] ''BGN'' None)"

text \<open>The balances that the loop takes for non-zero: at least 0.01 in absolute value.\<close>

definition significant_count :: "rat list \<Rightarrow> nat" where
  "significant_count balances = length (filter (\<lambda>b. 1 / 100 \<le> \<bar>b\<bar>) balances)"

text \<open>
  Applying a settlement to a table of balances: the balance of the debtor goes up by the
  amount, the balance of the creditor goes down by it. \<open>settle_vector\<close> is the same on a
  list of ids and a list of balances.
\<close>

definition apply_settlement :: "Settlement \<Rightarrow> BalanceRow list \<Rightarrow> BalanceRow list" where
  "apply_settlement s rows =
     map (\<lambda>r. r\<lparr>balance := balance r
                    + (if row_participant_id r = from_participant s then settlement_amount s else 0)
                    - (if row_participant_id r = to_participant s then settlement_amount s else 0)\<rparr>)
         rows"

definition settle_vector :: "string list \<Rightarrow> Settlement \<Rightarrow> rat list \<Rightarrow> rat list" where
  "settle_vector ps s balances =
     map (\<lambda>(p, b). b + (if p = from_participant s then settlement_amount s else 0)
                     - (if p = to_participant s then settlement_amount s else 0))
         (zip ps balances)"


text \<open>A group of one participant, after a split of 1000 at 99.999 percent.\<close>

definition solo_group :: Group where
  "solo_group =
     snd (add_expense_percentage
            \<lparr>group_name = ''Solo'',
               participants = [\<lparr>name = ''Ivan'', pid = ''p1'', email = None\<rparr>],
               expenses = [], base_currency = ''BGN''\<rparr>
            ''Rent'' 1000 ''p1'' [(''p1'', 99999 / 1000)] ''BGN'' None)"

text \<open>
  An expense with every amount rounded to the cent, the amounts of an expense (the total and
  the amount of every split), and the ledgers on which the float64 aggregation is compared
  with the exact one: every amount is a whole number of cents up to \<open>1e-9\<close> (a value
  that \<open>np.round\<close> returned, or a decimal literal, is within \<open>1e-15\<close> of one), there
  are at most 10000 amounts, and their absolute values sum to at most \<open>1e9\<close>.
\<close>

definition cents_split :: "ExpenseSplit \<Rightarrow> ExpenseSplit" where
  "cents_split s = s\<lparr>amount := np_round2 (amount s)\<rparr>"

definition cents_expense :: "Expense \<Rightarrow> Expense" where
  "cents_expense e = e\<lparr>total_amount := np_round2 (total_amount e),
                        splits := map cents_split (splits e)\<rparr>"

definition amounts_of :: "Expense \<Rightarrow> rat list" where
  "amounts_of e = total_amount e # map amount (splits e)"

definition cent_ledger :: "Expense list \<Rightarrow> bool" where
  "cent_ledger es \<longleftrightarrow>
     (let amounts = concat (map amounts_of es)
      in list_all (\<lambda>x. \<bar>x - np_round2 x\<bar> \<le> 1 / 10 ^ 9) amounts
         \<and> length amounts \<le> 10000
         \<and> sum_list (map abs amounts) \<le> 10 ^ 9)"

text \<open>A row with its balance rounded to binary64.\<close>

definition f64_row :: "BalanceRow \<Rightarrow> BalanceRow" where
  "f64_row r = r\<lparr>balance := f64 (balance r)\<rparr>"

text \<open>
  Two dictionaries with the same keys, the float one within \<open>E\<close> of the exact one, whose
  values are whole cents of absolute value at most \<open>w\<close>.
\<close>

definition balances_close ::
  "rat \<Rightarrow> rat \<Rightarrow> (string \<rightharpoonup> rat) \<Rightarrow> (string \<rightharpoonup> rat) \<Rightarrow> bool" where
  "balances_close E w bf be \<longleftrightarrow>
     dom bf = dom be
     \<and> (\<forall>i x v. bf i = Some x \<longrightarrow> be i = Some v \<longrightarrow>
           \<bar>x - v\<bar> \<le> E \<and> \<bar>v\<bar> \<le> w \<and> np_round2 v = v)"

text \<open>
  A group of two, and the expense that \<open>add_expense_custom\<close> appends when \<open>payer\<close>
  pays \<open>x\<close> for \<open>debtor\<close> alone.
\<close>

definition pair_group :: Group where
  "pair_group =
     \<lparr>group_name = ''Pair'',
      participants = [\<lparr>name = ''Ivan'', pid = ''p1'', email = None\<rparr>,
                      \<lparr>name = ''Maria'', pid = ''p2'', email = None\<rparr>],
      expenses = [], base_currency = ''BGN''\<rparr>"

definition loan :: "string \<Rightarrow> string \<Rightarrow> rat \<Rightarrow> Expense" where
  "loan payer debtor x =
     \<lparr>description = ''Loan'', total_amount = x, paid_by = payer, currency = ''BGN'',
      split_method = CUSTOM,
      splits = [\<lparr>participant_id = debtor, amount = x, percentage = None, shares = None\<rparr>],
      is_recurring = False, category = None\<rparr>"

text \<open>
  A heap that holds nothing but the two lists of a group, and the Group object on it.
\<close>

definition store_group :: "Group \<Rightarrow> Heap \<times> GroupObj" where
  "store_group g =
     (\<lparr>objs = (\<lambda>a. None)(0 \<mapsto> Participants (participants g), 1 \<mapsto> Expenses (expenses g)),
       fresh = 2\<rparr>,
      \<lparr>obj_name = group_name g, obj_participants = 0, obj_expenses = 1,
        obj_base_currency = base_currency g\<rparr>)"

section \<open>Rounding to cents\<close>

lemma np_rint_of_int: "np_rint (of_int k) = k"
  by (simp add: np_rint_def)

lemma np_rint_error: "\<bar>of_int (np_rint x) - x\<bar> \<le> 1 / 2"
proof -
  have "of_int \<lfloor>x\<rfloor> \<le> x" "x < of_int \<lfloor>x\<rfloor> + 1" by linarith+
  then show ?thesis unfolding np_rint_def Let_def by (auto simp: abs_le_iff)
qed

lemma np_round2_error: "\<bar>np_round2 x - x\<bar> \<le> 1 / 200"
proof -
  have "\<bar>of_int (np_rint (x * 100)) - x * 100\<bar> \<le> 1 / 2" by (rule np_rint_error)
  then show ?thesis unfolding np_round2_def by (simp add: field_simps abs_le_iff)
qed

lemma np_round2_of_int: "np_round2 (of_int k / 100) = of_int k / 100"
  by (simp add: np_round2_def np_rint_of_int)

lemma np_round2_fix_iff: "np_round2 x = x \<longleftrightarrow> (\<exists>k. x = of_int k / 100)"
  by (metis np_round2_of_int np_round2_def)

lemma np_round2_zero: "np_round2 0 = 0"
  by (simp add: np_round2_def np_rint_def)

lemma cents_diff: "np_round2 a = a \<Longrightarrow> np_round2 b = b \<Longrightarrow> np_round2 (a - b) = a - b"
proof -
  assume "np_round2 a = a" "np_round2 b = b"
  then obtain k l where "a = of_int k / 100" "b = of_int l / 100"
    unfolding np_round2_fix_iff by blast
  then have "a - b = of_int (k - l) / 100" by (simp add: diff_divide_distrib)
  then show ?thesis unfolding np_round2_fix_iff by blast
qed

lemma cents_add: "np_round2 a = a \<Longrightarrow> np_round2 b = b \<Longrightarrow> np_round2 (a + b) = a + b"
proof -
  assume "np_round2 a = a" "np_round2 b = b"
  then obtain k l where "a = of_int k / 100" "b = of_int l / 100"
    unfolding np_round2_fix_iff by blast
  then have "a + b = of_int (k + l) / 100" by (simp add: add_divide_distrib)
  then show ?thesis unfolding np_round2_fix_iff by blast
qed

lemma cents_round: "np_round2 (np_round2 x) = np_round2 x"
  unfolding np_round2_fix_iff by (auto simp: np_round2_def)




lemma equal_amounts_eq:
  assumes "n \<noteq> 0"
  shows "(let amounts = replicate n (np_round2 (t / of_nat n));
              remainder = t - sum_list amounts
          in if remainder \<noteq> 0 then amounts[0 := amounts ! 0 + np_round2 remainder] else amounts)
         = equal_amounts t n"
proof -
  obtain m where n: "n = Suc m" using assms by (cases n) auto
  show ?thesis
    by (simp add: n equal_amounts_def Let_def sum_list_replicate np_round2_zero algebra_simps)
qed


lemma add_expense_equal_run:
  assumes ps: "ps = (case participants_arg of None \<Rightarrow> map pid (participants g) | Some l \<Rightarrow> l)"
    and ne: "ps \<noteq> []"
  shows "\<exists>e. add_expense_equal g descr t paid participants_arg cur cat
               = (Inr e, g\<lparr>expenses := expenses g @ [e]\<rparr>)
           \<and> paid_by e = paid \<and> total_amount e = t
           \<and> map participant_id (splits e) = ps
           \<and> map amount (splits e) = equal_amounts t (length ps)"
proof -
  let ?n = "length ps"
  have n0: "?n \<noteq> 0" using ne by simp
  let ?e = "\<lparr>description = descr, total_amount = t, paid_by = paid, currency = cur,
             split_method = EQUAL,
             splits = map (\<lambda>(p, amt). \<lparr>participant_id = p, amount = amt,
                                          percentage = None, shares = None\<rparr>)
                          (zip ps (equal_amounts t ?n)),
             is_recurring = False, category = cat\<rparr>"
  have len: "length (equal_amounts t ?n) = ?n"
    using n0 by (simp add: equal_amounts_def Let_def)
  have run: "add_expense_equal g descr t paid participants_arg cur cat
               = (Inr ?e, g\<lparr>expenses := expenses g @ [?e]\<rparr>)"
    using n0 equal_amounts_eq [OF n0, of t]
    unfolding add_expense_equal_def ps [symmetric] by (simp add: Let_def)
  have ids: "map participant_id (splits ?e) = ps"
    using len by (simp add: comp_def case_prod_beta)
  have amts: "map amount (splits ?e) = equal_amounts t ?n"
    using len by (simp add: comp_def case_prod_beta)
  show ?thesis
    using run ids amts by (intro exI [of _ ?e]) simp
qed

text \<open>
  The rounding to binary64: \<open>binade\<close> is the exponent it is said to be, and the rounded
  value is within the relative error \<open>2^-53\<close> of the exact one.
\<close>

lemma bit_length_bounds:
  "0 < n \<Longrightarrow> 2 ^ (bit_length n - 1) \<le> n \<and> n < 2 ^ bit_length n"
proof (induction n rule: bit_length.induct)
  case (1 n)
  show ?case
  proof (cases "n div 2 = 0")
    case True
    with 1(2) have "n = 1" by (simp add: div_eq_0_iff) 
    then show ?thesis by (simp add: bit_length.simps)
  next
    case False
    then have IH: "2 ^ (bit_length (n div 2) - 1) \<le> n div 2 \<and> n div 2 < 2 ^ bit_length (n div 2)"
      using 1 by simp
    have pos: "0 < bit_length (n div 2)" using False by (simp add: bit_length.simps [of "n div 2"])
    have bl: "bit_length n = Suc (bit_length (n div 2))"
      using 1(2) by (simp add: bit_length.simps [of n])
    have "(2 :: nat) ^ bit_length (n div 2) = 2 * 2 ^ (bit_length (n div 2) - 1)"
      using pos by (cases "bit_length (n div 2)") simp_all
    then have lo: "2 ^ bit_length (n div 2) \<le> n" using IH by linarith
    have hi: "n < 2 * 2 ^ bit_length (n div 2)" using IH by linarith
    show ?thesis unfolding bl using lo hi by simp
  qed
qed

lemma powi_neg_nat: "(2 :: rat) powi (- int k) = 1 / 2 ^ k"
  by (simp add: power_int_minus inverse_eq_divide)

lemma binade_bounds:
  assumes "x \<noteq> 0"
  shows "2 powi binade x \<le> \<bar>x\<bar> \<and> \<bar>x\<bar> < 2 powi (binade x + 1)"
proof (cases "1 \<le> \<bar>x\<bar>")
  case True
  let ?m = "nat \<lfloor>\<bar>x\<bar>\<rfloor>"
  have m: "0 < ?m" using True by simp
  have e: "binade x = int (bit_length ?m) - 1" using True by (simp add: binade_def)
  have bl: "0 < bit_length ?m" using m by (simp add: bit_length.simps [of ?m])
  from bit_length_bounds [OF m]
  have lo: "2 ^ (bit_length ?m - 1) \<le> ?m" and hi: "?m < 2 ^ bit_length ?m" by blast+
  have mx: "(of_nat ?m :: rat) \<le> \<bar>x\<bar>" "\<bar>x\<bar> < of_nat ?m + 1"
    using True by (simp_all add: of_nat_nat) linarith+
  have "(2 :: rat) ^ (bit_length ?m - 1) \<le> of_nat ?m"
    using lo by (metis of_nat_le_iff of_nat_numeral of_nat_power)
  then have a: "(2 :: rat) ^ (bit_length ?m - 1) \<le> \<bar>x\<bar>" using mx by linarith
  have "?m + 1 \<le> 2 ^ bit_length ?m" using hi by linarith
  then have "(of_nat (?m + 1) :: rat) \<le> of_nat (2 ^ bit_length ?m)"
    by (rule of_nat_mono)
  then have b: "\<bar>x\<bar> < (2 :: rat) ^ bit_length ?m" using mx by simp
  have p1: "(2 :: rat) powi binade x = 2 ^ (bit_length ?m - 1)"
    unfolding e using bl by (simp add: power_int_def nat_diff_distrib')
  have p2: "(2 :: rat) powi (binade x + 1) = 2 ^ bit_length ?m"
    unfolding e by (simp add: power_int_def)
  show ?thesis unfolding p1 p2 using a b by simp
next
  case False
  define y where "y = 1 / \<bar>x\<bar>"
  have x0: "0 < \<bar>x\<bar>" using assms by simp
  have y1: "1 < y" using False x0 by (simp add: y_def)
  let ?m = "nat (\<lceil>y\<rceil> - 1)"
  have c2: "2 \<le> \<lceil>y\<rceil>" using y1 by (simp add: le_ceiling_iff) 
  have m: "0 < ?m" using c2 by simp
  have e: "binade x = - int (bit_length ?m)" using False by (simp add: binade_def y_def)
  have bl: "0 < bit_length ?m" using m by (simp add: bit_length.simps [of ?m])
  from bit_length_bounds [OF m]
  have lo: "2 ^ (bit_length ?m - 1) \<le> ?m" and hi: "?m < 2 ^ bit_length ?m" by blast+
  have mi: "int ?m = \<lceil>y\<rceil> - 1" using c2 by simp
  have "int (2 ^ (bit_length ?m - 1)) \<le> int ?m" using lo by (rule iffD2 [OF of_nat_le_iff])
  then have "2 ^ (bit_length ?m - 1) < \<lceil>y\<rceil>" unfolding mi by simp
  then have a: "(2 :: rat) ^ (bit_length ?m - 1) < y"
    by (metis less_ceiling_iff of_int_numeral of_int_power)
  have "int ?m + 1 \<le> int (2 ^ bit_length ?m)" using hi by linarith
  then have "\<lceil>y\<rceil> \<le> 2 ^ bit_length ?m" unfolding mi by simp
  then have b: "y \<le> (2 :: rat) ^ bit_length ?m"
    by (metis ceiling_le_iff of_int_numeral of_int_power)
  have xy: "\<bar>x\<bar> = 1 / y" using x0 by (simp add: y_def)
  have p1: "(2 :: rat) powi binade x = 1 / 2 ^ bit_length ?m"
    unfolding e by (rule powi_neg_nat)
  have "binade x + 1 = - int (bit_length ?m - 1)" unfolding e using bl by simp
  then have p2: "(2 :: rat) powi (binade x + 1) = 1 / 2 ^ (bit_length ?m - 1)"
    by (simp only: powi_neg_nat)
  have "1 / 2 ^ bit_length ?m \<le> 1 / y" using b y1 by (simp add: frac_le)
  moreover have "1 / y < 1 / 2 ^ (bit_length ?m - 1)" using a by (simp add: frac_less2)
  ultimately show ?thesis unfolding p1 p2 xy by simp
qed

lemma f64_error: "\<bar>f64 x - x\<bar> \<le> \<bar>x\<bar> / 2 ^ 53"
proof (cases "x = 0")
  case True
  then show ?thesis by (simp add: f64_def)
next
  case False
  define ulp :: rat where "ulp = 2 powi (binade x - 52)"
  have u0: "0 < ulp" by (simp add: ulp_def)
  have fx: "f64 x = of_int (np_rint (x / ulp)) * ulp"
    using False by (simp add: f64_def ulp_def Let_def)
  have "f64 x - x = (of_int (np_rint (x / ulp)) - x / ulp) * ulp"
    unfolding fx using u0 by (simp add: field_simps)
  then have "\<bar>f64 x - x\<bar> = \<bar>of_int (np_rint (x / ulp)) - x / ulp\<bar> * ulp"
    using u0 by (simp add: abs_mult)
  also have "\<dots> \<le> 1 / 2 * ulp"
    using np_rint_error [of "x / ulp"] u0 by (intro mult_right_mono) simp_all
  also have "\<dots> = 2 powi binade x / 2 ^ 53"
    unfolding ulp_def by (simp add: power_int_diff)
  also have "\<dots> \<le> \<bar>x\<bar> / 2 ^ 53"
    using binade_bounds [OF False] by (simp add: divide_right_mono)
  finally show ?thesis .
qed

lemma np_rint_near:
  assumes "\<bar>y - of_int k\<bar> < 1 / 2"
  shows "np_rint y = k"
proof -
  have "\<bar>of_int (np_rint y) - y\<bar> \<le> 1 / 2" by (rule np_rint_error)
  with assms have "\<bar>(of_int (np_rint y) :: rat) - of_int k\<bar> < 1" by linarith
  then have "\<bar>(of_int (np_rint y - k) :: rat)\<bar> < 1" by simp
  then have "\<bar>np_rint y - k\<bar> < 1" by (metis of_int_abs of_int_less_1_iff)
  then show ?thesis by simp
qed

section \<open>The balance table in closed form\<close>

lemma dict_add_known:
  "b k = Some v \<Longrightarrow> dict_add b k w = Inr (b(k \<mapsto> v + w))"
  by (simp add: dict_add_def)

lemma dict_add_unknown: "b k = None \<Longrightarrow> dict_add b k w = Inl KeyError"
  by (simp add: dict_add_def)

lemma debit_splits_known:
  "\<forall>s \<in> set ss. participant_id s \<in> dom b \<Longrightarrow>
     debit_splits b ss = Inr (\<lambda>i. map_option (\<lambda>v. v - split_debit i ss) (b i))"
proof (induction ss arbitrary: b)
  case Nil
  show ?case by (simp add: split_debit_def option.map_ident)
next
  case (Cons s ss)
  from Cons.prems obtain v where v: "b (participant_id s) = Some v" by auto
  let ?b = "b(participant_id s \<mapsto> v + - amount s)"
  have "\<forall>s' \<in> set ss. participant_id s' \<in> dom ?b" using Cons.prems by auto
  then have "debit_splits ?b ss = Inr (\<lambda>i. map_option (\<lambda>v. v - split_debit i ss) (?b i))"
    by (rule Cons.IH)
  moreover have "(\<lambda>i. map_option (\<lambda>v. v - split_debit i ss) (?b i))
      = (\<lambda>i. map_option (\<lambda>v. v - split_debit i (s # ss)) (b i))"
    by (rule ext) (auto simp: split_debit_def v option.map_comp comp_def
        intro!: option.map_cong)
  ultimately show ?case by (simp add: dict_add_def v)
qed

lemma debit_splits_unknown:
  "\<exists>s \<in> set ss. participant_id s \<notin> dom b \<Longrightarrow> debit_splits b ss = Inl KeyError"
proof (induction ss arbitrary: b)
  case Nil
  then show ?case by simp
next
  case (Cons s ss)
  show ?case
  proof (cases "b (participant_id s)")
    case None
    then show ?thesis by (simp add: dict_add_unknown)
  next
    case (Some v)
    let ?b = "b(participant_id s \<mapsto> v + - amount s)"
    have "dom ?b = dom b" using Some by auto
    with Cons.prems Some have "\<exists>s' \<in> set ss. participant_id s' \<notin> dom ?b" by auto
    then have "debit_splits ?b ss = Inl KeyError" by (rule Cons.IH)
    then show ?thesis by (simp add: dict_add_def Some)
  qed
qed

lemma add_expenses_known:
  "\<forall>e \<in> set es. refs_known ids e \<Longrightarrow> set ids \<subseteq> dom b \<Longrightarrow>
     add_expenses b es
       = Inr (\<lambda>i. map_option (\<lambda>v. v + sum_list (map (expense_delta i) es)) (b i))"
proof (induction es arbitrary: b)
  case Nil
  show ?case by (simp add: option.map_ident)
next
  case (Cons e es)
  from Cons.prems have pk: "paid_by e \<in> dom b"
    and sk: "\<forall>s \<in> set (splits e). participant_id s \<in> set ids"
    by (auto simp: refs_known_def list_all_iff)
  from pk obtain v where v: "b (paid_by e) = Some v" by auto
  let ?b1 = "b(paid_by e \<mapsto> v + total_amount e)"
  let ?b2 = "\<lambda>i. map_option (\<lambda>v. v - split_debit i (splits e)) (?b1 i)"
  have d1: "dom ?b1 = dom b" using v by auto
  have "\<forall>s \<in> set (splits e). participant_id s \<in> dom ?b1"
    using sk Cons.prems(2) d1 by blast
  then have s2: "debit_splits ?b1 (splits e) = Inr ?b2" by (rule debit_splits_known)
  have d2: "dom ?b2 = dom b" using d1 by (auto simp: dom_def)
  have "add_expenses ?b2 es
          = Inr (\<lambda>i. map_option (\<lambda>v. v + sum_list (map (expense_delta i) es)) (?b2 i))"
    using Cons.prems d2 by (intro Cons.IH) auto
  moreover have "(\<lambda>i. map_option (\<lambda>v. v + sum_list (map (expense_delta i) es)) (?b2 i))
      = (\<lambda>i. map_option (\<lambda>v. v + sum_list (map (expense_delta i) (e # es))) (b i))"
    by (rule ext) (auto simp: expense_delta_def v option.map_comp comp_def
        intro!: option.map_cong)
  ultimately show ?case by (simp add: dict_add_def v s2)
qed

lemma add_expenses_unknown:
  "\<exists>e \<in> set es. \<not> refs_known ids e \<Longrightarrow> dom b = set ids \<Longrightarrow>
     add_expenses b es = Inl KeyError"
proof (induction es arbitrary: b)
  case Nil
  then show ?case by simp
next
  case (Cons e es)
  show ?case
  proof (cases "refs_known ids e")
    case False
    show ?thesis
    proof (cases "b (paid_by e)")
      case None
      then show ?thesis by (simp add: dict_add_unknown)
    next
      case (Some v)
      let ?b1 = "b(paid_by e \<mapsto> v + total_amount e)"
      have d1: "dom ?b1 = dom b" using Some by auto
      from Some Cons.prems(2) have "paid_by e \<in> set ids" by auto
      with False have "\<exists>s \<in> set (splits e). participant_id s \<notin> dom ?b1"
        unfolding d1 Cons.prems(2) by (auto simp: refs_known_def list_all_iff)
      then have "debit_splits ?b1 (splits e) = Inl KeyError" by (rule debit_splits_unknown)
      then show ?thesis by (simp add: dict_add_def Some)
    qed
  next
    case True
    then have pk: "paid_by e \<in> dom b"
      and sk: "\<forall>s \<in> set (splits e). participant_id s \<in> set ids"
      using Cons.prems(2) by (auto simp: refs_known_def list_all_iff)
    from pk obtain v where v: "b (paid_by e) = Some v" by auto
    let ?b1 = "b(paid_by e \<mapsto> v + total_amount e)"
    let ?b2 = "\<lambda>i. map_option (\<lambda>v. v - split_debit i (splits e)) (?b1 i)"
    have d1: "dom ?b1 = dom b" using v by auto
    have "\<forall>s \<in> set (splits e). participant_id s \<in> dom ?b1"
      using sk Cons.prems(2) d1 by blast
    then have s2: "debit_splits ?b1 (splits e) = Inr ?b2" by (rule debit_splits_known)
    have d2: "dom ?b2 = set ids" using d1 Cons.prems(2) by (auto simp: dom_def)
    have "\<exists>e' \<in> set es. \<not> refs_known ids e'" using Cons.prems(1) True by auto
    then have "add_expenses ?b2 es = Inl KeyError" using d2 by (rule Cons.IH)
    then show ?thesis by (simp add: dict_add_def v s2)
  qed
qed

lemma build_rows_known:
  "\<forall>p \<in> set ps. \<exists>v. b (pid p) = Some v \<Longrightarrow>
     build_rows b ps
       = Inr (map (\<lambda>p. \<lparr>row_participant_id = pid p, row_name = name p,
                         balance = np_round2 (the (b (pid p)))\<rparr>) ps)"
  by (induction ps) auto

lemma initial_balances:
  "map_of (map (\<lambda>p. (pid p, 0::rat)) ps) i = (if i \<in> pid ` set ps then Some 0 else None)"
  by (induction ps) auto

lemma get_balances_known:
  assumes "\<forall>e \<in> set (expenses g). refs_known (ids_of g) e"
  shows "get_balances g = Inr (balance_rows g)"
proof -
  let ?init = "map_of (map (\<lambda>p. (pid p, 0::rat)) (participants g))"
  let ?b = "\<lambda>i. map_option (\<lambda>v. v + sum_list (map (expense_delta i) (expenses g))) (?init i)"
  have "set (ids_of g) \<subseteq> dom ?init" by (auto simp: initial_balances)
  with assms have run: "add_expenses ?init (expenses g) = Inr ?b"
    by (rule add_expenses_known)
  have val: "?b (pid p) = Some (sum_list (map (expense_delta (pid p)) (expenses g)))"
    if "p \<in> set (participants g)" for p
    using that by (simp add: initial_balances)
  then have "build_rows ?b (participants g)
      = Inr (map (\<lambda>p. \<lparr>row_participant_id = pid p, row_name = name p,
                         balance = np_round2 (the (?b (pid p)))\<rparr>) (participants g))"
    by (intro build_rows_known) blast
  also have "\<dots> = Inr (balance_rows g)"
    unfolding balance_rows_def using val by (simp cong: map_cong)
  finally show ?thesis unfolding get_balances_def run by simp
qed

lemma get_balances_unknown:
  assumes "\<exists>e \<in> set (expenses g). \<not> refs_known (ids_of g) e"
  shows "get_balances g = Inl KeyError"
proof -
  let ?init = "map_of (map (\<lambda>p. (pid p, 0::rat)) (participants g))"
  have "dom ?init = set (ids_of g)" by (auto simp: initial_balances dom_def)
  with assms have "add_expenses ?init (expenses g) = Inl KeyError"
    by (rule add_expenses_unknown)
  then show ?thesis unfolding get_balances_def by simp
qed

lemma balance_rows_mset:
  assumes "mset es = mset (expenses g)"
  shows "balance_rows (g\<lparr>expenses := es\<rparr>) = balance_rows g"
proof -
  have "sum_list (map f es) = sum_list (map f (expenses g))" for f :: "Expense \<Rightarrow> rat"
  proof -
    have "mset (map f es) = mset (map f (expenses g))" using assms by (metis mset_map)
    then show ?thesis by (metis sum_mset_sum_list)
  qed
  then show ?thesis by (simp add: balance_rows_def)
qed

lemma get_balances_dangling:
  assumes "paid_by e \<notin> set (ids_of g) \<or> \<not> set (map participant_id (splits e)) \<subseteq> set (ids_of g)"
  shows "get_balances (g\<lparr>expenses := expenses g @ [e]\<rparr>) = Inl KeyError"
proof -
  have "\<not> refs_known (ids_of g) e" using assms by (auto simp: refs_known_def list_all_iff)
  then show ?thesis by (intro get_balances_unknown) auto
qed

section \<open>The sum of the balances\<close>

lemma cents_sum_list:
  "\<forall>x \<in> set xs. np_round2 x = x \<Longrightarrow> np_round2 (sum_list xs) = sum_list xs"
  by (induction xs) (simp_all add: np_round2_zero cents_add)

lemma sum_list_indicator_notin:
  "k \<notin> set xs \<Longrightarrow> sum_list (map (\<lambda>i. if k = i then v else 0) xs) = (0 :: rat)"
  by (induction xs) auto

lemma sum_list_indicator:
  "distinct xs \<Longrightarrow> k \<in> set xs \<Longrightarrow>
     sum_list (map (\<lambda>i. if k = i then v else 0) xs) = (v :: rat)"
  by (induction xs) (auto simp: sum_list_indicator_notin)

lemma sum_list_swap:
  "sum_list (map (\<lambda>x. sum_list (map (f x) ys)) xs)
     = sum_list (map (\<lambda>y. sum_list (map (\<lambda>x. f x y) xs)) ys)"
  for f :: "'a \<Rightarrow> 'b \<Rightarrow> rat"
  by (induction ys) (simp_all add: sum_list_addf)

lemma split_debit_Cons:
  "split_debit i (s # ss) = (if participant_id s = i then amount s else 0) + split_debit i ss"
  by (simp add: split_debit_def)

lemma sum_split_debit:
  "distinct ids \<Longrightarrow> \<forall>s \<in> set ss. participant_id s \<in> set ids \<Longrightarrow>
     sum_list (map (\<lambda>i. split_debit i ss) ids) = sum_list (map amount ss)"
proof (induction ss)
  case Nil
  show ?case by (simp add: split_debit_def)
next
  case (Cons s ss)
  then show ?case
    by (simp add: split_debit_Cons sum_list_addf sum_list_indicator)
qed

lemma sum_expense_delta:
  assumes "distinct ids" "refs_known ids e"
  shows "sum_list (map (\<lambda>i. expense_delta i e) ids)
           = total_amount e - sum_list (map amount (splits e))"
proof -
  have "sum_list (map (\<lambda>i. expense_delta i e) ids)
      = sum_list (map (\<lambda>i. if paid_by e = i then total_amount e else 0) ids)
        - sum_list (map (\<lambda>i. split_debit i (splits e)) ids)"
    unfolding expense_delta_def by (simp add: sum_list_subtractf)
  also have "\<dots> = total_amount e - sum_list (map amount (splits e))"
    using assms by (simp add: sum_list_indicator sum_split_debit refs_known_def list_all_iff)
  finally show ?thesis .
qed

lemma cents_expense_delta:
  assumes "np_round2 (total_amount e) = total_amount e"
    "\<forall>s \<in> set (splits e). np_round2 (amount s) = amount s"
  shows "np_round2 (expense_delta i e) = expense_delta i e"
proof -
  have "np_round2 (split_debit i (splits e)) = split_debit i (splits e)"
    unfolding split_debit_def using assms(2) by (intro cents_sum_list) auto
  moreover have "np_round2 (if paid_by e = i then total_amount e else 0)
      = (if paid_by e = i then total_amount e else 0)"
    using assms(1) by (simp add: np_round2_zero)
  ultimately show ?thesis unfolding expense_delta_def by (rule cents_diff [rotated])
qed

lemma sum_balance_rows:
  assumes d: "distinct (ids_of g)"
    and k: "\<forall>e \<in> set (expenses g). refs_known (ids_of g) e"
    and c: "\<forall>e \<in> set (expenses g). np_round2 (total_amount e) = total_amount e
              \<and> (\<forall>s \<in> set (splits e). np_round2 (amount s) = amount s)"
  shows "sum_list (map balance (balance_rows g))
           = sum_list (map (\<lambda>e. total_amount e - sum_list (map amount (splits e)))
                        (expenses g))"
proof -
  have r: "np_round2 (sum_list (map (expense_delta i) (expenses g)))
      = sum_list (map (expense_delta i) (expenses g))" for i
    using c by (intro cents_sum_list) (auto simp: cents_expense_delta)
  have "sum_list (map balance (balance_rows g))
      = sum_list (map (\<lambda>i. sum_list (map (expense_delta i) (expenses g))) (ids_of g))"
    by (simp add: balance_rows_def comp_def r)
  also have "\<dots> = sum_list (map (\<lambda>e. sum_list (map (\<lambda>i. expense_delta i e) (ids_of g)))
                              (expenses g))"
    by (rule sum_list_swap)
  also have "\<dots> = sum_list (map (\<lambda>e. total_amount e - sum_list (map amount (splits e)))
                        (expenses g))"
    using d k by (intro arg_cong [where f = sum_list] map_cong refl sum_expense_delta) auto
  finally show ?thesis .
qed

section \<open>The settlement loop\<close>

lemma argmax_from_props:
  "length pre = i \<Longrightarrow> bi < i \<Longrightarrow> pre ! bi = bv \<Longrightarrow> \<forall>x \<in> set pre. x \<le> bv \<Longrightarrow>
     argmax_from xs i bi bv < length (pre @ xs)
     \<and> (\<forall>x \<in> set (pre @ xs). x \<le> (pre @ xs) ! argmax_from xs i bi bv)"
proof (induction xs arbitrary: pre i bi bv)
  case Nil
  then show ?case by simp
next
  case (Cons x xs)
  show ?case
  proof (cases "bv < x")
    case True
    have "argmax_from xs (Suc i) i x < length ((pre @ [x]) @ xs)
        \<and> (\<forall>y \<in> set ((pre @ [x]) @ xs). y \<le> ((pre @ [x]) @ xs) ! argmax_from xs (Suc i) i x)"
      using Cons.prems True by (intro Cons.IH) (auto simp: nth_append)
    with True show ?thesis by simp
  next
    case False
    have "argmax_from xs (Suc i) bi bv < length ((pre @ [x]) @ xs)
        \<and> (\<forall>y \<in> set ((pre @ [x]) @ xs). y \<le> ((pre @ [x]) @ xs) ! argmax_from xs (Suc i) bi bv)"
      using Cons.prems False by (intro Cons.IH) (auto simp: nth_append)
    with False show ?thesis by simp
  qed
qed

lemma argmin_from_props:
  "length pre = i \<Longrightarrow> bi < i \<Longrightarrow> pre ! bi = bv \<Longrightarrow> \<forall>x \<in> set pre. bv \<le> x \<Longrightarrow>
     argmin_from xs i bi bv < length (pre @ xs)
     \<and> (\<forall>x \<in> set (pre @ xs). (pre @ xs) ! argmin_from xs i bi bv \<le> x)"
proof (induction xs arbitrary: pre i bi bv)
  case Nil
  then show ?case by simp
next
  case (Cons x xs)
  show ?case
  proof (cases "x < bv")
    case True
    have "argmin_from xs (Suc i) i x < length ((pre @ [x]) @ xs)
        \<and> (\<forall>y \<in> set ((pre @ [x]) @ xs). ((pre @ [x]) @ xs) ! argmin_from xs (Suc i) i x \<le> y)"
      using Cons.prems True by (intro Cons.IH) (auto simp: nth_append)
    with True show ?thesis by simp
  next
    case False
    have "argmin_from xs (Suc i) bi bv < length ((pre @ [x]) @ xs)
        \<and> (\<forall>y \<in> set ((pre @ [x]) @ xs). ((pre @ [x]) @ xs) ! argmin_from xs (Suc i) bi bv \<le> y)"
      using Cons.prems False by (intro Cons.IH) (auto simp: nth_append)
    with False show ?thesis by simp
  qed
qed

lemma np_argmax_props:
  assumes "xs \<noteq> []"
  obtains i where "np_argmax xs = Inr i" "i < length xs" "\<forall>x \<in> set xs. x \<le> xs ! i"
proof -
  from assms obtain y ys where xs: "xs = y # ys" by (cases xs) auto
  have "argmax_from ys 1 0 y < length ([y] @ ys)
      \<and> (\<forall>x \<in> set ([y] @ ys). x \<le> ([y] @ ys) ! argmax_from ys 1 0 y)"
    by (intro argmax_from_props) auto
  then show ?thesis using that [of "argmax_from ys 1 0 y"] by (simp add: xs np_argmax_def)
qed

lemma np_argmin_props:
  assumes "xs \<noteq> []"
  obtains i where "np_argmin xs = Inr i" "i < length xs" "\<forall>x \<in> set xs. xs ! i \<le> x"
proof -
  from assms obtain y ys where xs: "xs = y # ys" by (cases xs) auto
  have "argmin_from ys 1 0 y < length ([y] @ ys)
      \<and> (\<forall>x \<in> set ([y] @ ys). ([y] @ ys) ! argmin_from ys 1 0 y \<le> x)"
    by (intro argmin_from_props) auto
  then show ?thesis using that [of "argmin_from ys 1 0 y"] by (simp add: xs np_argmin_def)
qed

lemma cents_small_zero:
  assumes "np_round2 x = x" "\<bar>x\<bar> < 1 / 100"
  shows "x = 0"
proof -
  from assms(1) obtain k where k: "x = of_int k / 100" unfolding np_round2_fix_iff by blast
  with assms(2) have "\<bar>(of_int k :: rat)\<bar> < 1" by (simp add: abs_if split: if_splits)
  then have "\<bar>k\<bar> < 1" by (metis of_int_abs of_int_less_1_iff)
  then show ?thesis using k by simp
qed

lemma cents_nonzero_iff: "np_round2 x = x \<Longrightarrow> x \<noteq> 0 \<longleftrightarrow> 1 / 100 \<le> \<bar>x\<bar>"
proof
  assume "np_round2 x = x" "x \<noteq> 0"
  then have "\<not> \<bar>x\<bar> < 1 / 100" using cents_small_zero [of x] by blast
  then show "1 / 100 \<le> \<bar>x\<bar>" by linarith
next
  assume "1 / 100 \<le> \<bar>x\<bar>"
  then show "x \<noteq> 0" by auto
qed

lemma cents_min: "np_round2 a = a \<Longrightarrow> np_round2 b = b \<Longrightarrow> np_round2 (min a b) = min a b"
  by (simp add: min_def)

lemma cents_abs: "np_round2 a = a \<Longrightarrow> np_round2 \<bar>a\<bar> = \<bar>a\<bar>"
  using cents_diff [of 0 a] by (simp add: abs_if np_round2_zero)

lemma sum_list_update_rat:
  "i < length xs \<Longrightarrow> sum_list (xs[i := v]) = sum_list xs - xs ! i + (v :: rat)"
  by (induction xs arbitrary: i) (auto split: nat.splits)

lemma sum_list_uminus_rat: "sum_list (map uminus xs) = - sum_list (xs :: rat list)"
  by (induction xs) auto


lemma filter_length_update:
  "i < length xs \<Longrightarrow>
     length (filter P (xs[i := v])) + (if P (xs ! i) then 1 else 0)
       = length (filter P xs) + (if P v then 1 else 0)"
proof (induction xs arbitrary: i)
  case Nil
  then show ?case by simp
next
  case (Cons x xs)
  show ?case
  proof (cases i)
    case 0
    then show ?thesis by simp
  next
    case (Suc j)
    with Cons.prems have "j < length xs" by simp
    from Cons.IH [OF this] show ?thesis unfolding Suc by simp
  qed
qed

lemma significant_count_update:
  "i < length xs \<Longrightarrow>
     significant_count (xs[i := v]) + (if 1 / 100 \<le> \<bar>xs ! i\<bar> then 1 else 0)
       = significant_count xs + (if 1 / 100 \<le> \<bar>v\<bar> then 1 else 0)"
  unfolding significant_count_def by (rule filter_length_update)

lemma significant_count_zero:
  "significant_count xs = 0 \<longleftrightarrow> (\<forall>x \<in> set xs. \<bar>x\<bar> < 1 / 100)"
  unfolding significant_count_def by (auto simp: filter_empty_conv not_le)




lemma settle_vector_update:
  assumes "distinct ps" "length ps = length bs" "ci < length bs" "di < length bs" "ci \<noteq> di"
  shows "settle_vector ps \<lparr>from_participant = ps ! di, to_participant = ps ! ci,
                            settlement_amount = t, settlement_currency = c\<rparr> bs
           = bs[ci := bs ! ci - t, di := bs ! di + t]"
proof (rule nth_equalityI)
  show "length (settle_vector ps \<lparr>from_participant = ps ! di, to_participant = ps ! ci,
                            settlement_amount = t, settlement_currency = c\<rparr> bs)
      = length (bs[ci := bs ! ci - t, di := bs ! di + t])"
    using assms(2) by (simp add: settle_vector_def)
next
  fix i
  assume "i < length (settle_vector ps \<lparr>from_participant = ps ! di, to_participant = ps ! ci,
                            settlement_amount = t, settlement_currency = c\<rparr> bs)"
  then have i: "i < length bs" using assms(2) by (simp add: settle_vector_def)
  have a: "ps ! i = ps ! di \<longleftrightarrow> i = di" using assms i by (simp add: nth_eq_iff_index_eq)
  have b: "ps ! i = ps ! ci \<longleftrightarrow> i = ci" using assms i by (simp add: nth_eq_iff_index_eq)
  show "settle_vector ps \<lparr>from_participant = ps ! di, to_participant = ps ! ci,
                            settlement_amount = t, settlement_currency = c\<rparr> bs ! i
      = bs[ci := bs ! ci - t, di := bs ! di + t] ! i"
    using i assms(2,3,4,5) by (auto simp: settle_vector_def a b nth_list_update)
qed



lemma apply_settlement_ids:
  "map row_participant_id (apply_settlement s rows) = map row_participant_id rows"
  by (simp add: apply_settlement_def comp_def)

lemma apply_settlement_balances:
  "map balance (apply_settlement s rows)
     = settle_vector (map row_participant_id rows) s (map balance rows)"
  by (induction rows) (simp_all add: apply_settlement_def settle_vector_def)

lemma fold_apply_settlement:
  "map balance (fold apply_settlement ss rows)
     = fold (settle_vector (map row_participant_id rows)) ss (map balance rows)"
proof (induction ss arbitrary: rows)
  case Nil
  show ?case by simp
next
  case (Cons s ss)
  show ?case
    using Cons.IH [of "apply_settlement s rows"]
    by (simp add: apply_settlement_ids apply_settlement_balances)
qed

lemma get_balances_Inr:
  assumes "get_balances g = Inr rows"
  shows "rows = balance_rows g"
proof (cases "\<forall>e \<in> set (expenses g). refs_known (ids_of g) e")
  case True
  then have "get_balances g = Inr (balance_rows g)" by (rule get_balances_known)
  with assms show ?thesis by simp
next
  case False
  then have "get_balances g = Inl KeyError" by (intro get_balances_unknown) blast
  with assms show ?thesis by simp
qed

lemma balance_rows_ids: "map row_participant_id (balance_rows g) = ids_of g"
  by (simp add: balance_rows_def comp_def)

lemma balance_rows_cents: "\<forall>b \<in> set (map balance (balance_rows g)). np_round2 b = b"
  by (auto simp: balance_rows_def cents_round)


lemma no_rows_KeyError:
  "get_balances g = Inr [] \<Longrightarrow> calculate_optimal_settlements g = Some (Inl KeyError, g)"
  by (simp add: calculate_optimal_settlements_def)


lemma calculate_optimal_settlements_group:
  "calculate_optimal_settlements g = Some (r, g') \<Longrightarrow> g' = g"
  by (auto simp: calculate_optimal_settlements_def split: sum.splits if_splits)


lemma trip_group_balances:
  "get_balances trip_group
     = Inr [\<lparr>row_participant_id = ''p1'', row_name = ''Ivan'', balance = 50\<rparr>,
            \<lparr>row_participant_id = ''p2'', row_name = ''Maria'', balance = - 10\<rparr>,
            \<lparr>row_participant_id = ''p3'', row_name = ''Georgi'', balance = - 40\<rparr>]"
  by code_simp

lemma trip_group_step1:
  "settle_step trip_group [''p1'', ''p2'', ''p3''] [50, - 10, - 40]
     = Inr (Some (\<lparr>from_participant = ''p3'', to_participant = ''p1'',
                    settlement_amount = 40, settlement_currency = ''BGN''\<rparr>, [10, - 10, 0]))"
  by code_simp

lemma trip_group_step2:
  "settle_step trip_group [''p1'', ''p2'', ''p3''] [10, - 10, 0]
     = Inr (Some (\<lparr>from_participant = ''p2'', to_participant = ''p1'',
                    settlement_amount = 10, settlement_currency = ''BGN''\<rparr>, [0, 0, 0]))"
  by code_simp

lemma trip_group_step3:
  "settle_step trip_group [''p1'', ''p2'', ''p3''] [0, 0, 0] = Inr None"
  by code_simp

lemma trip_group_settlements:
  "calculate_optimal_settlements trip_group
     = Some (Inr [\<lparr>from_participant = ''p3'', to_participant = ''p1'',
                    settlement_amount = 40, settlement_currency = ''BGN''\<rparr>,
                  \<lparr>from_participant = ''p2'', to_participant = ''p1'',
                    settlement_amount = 10, settlement_currency = ''BGN''\<rparr>], trip_group)"
  by (simp add: calculate_optimal_settlements_def trip_group_balances settle_loop.simps
      trip_group_step1 trip_group_step2 trip_group_step3)




text \<open>
  The tolerance on the sum is strict. With a single participant whose balance is 0.01 the
  balance is both the largest and the smallest, the loop records a payment of 0.01 from
  the participant to themselves, the two updates cancel, and the loop never ends. The
  percentage check lets such a group through.
\<close>

lemma single_cent_step:
  "settle_step g [p] [1 / 100]
     = Inr (Some (\<lparr>from_participant = p, to_participant = p,
                    settlement_amount = 1 / 100, settlement_currency = base_currency g\<rparr>,
                  [1 / 100]))"
proof -
  have "np_round2 (1 / 100) = 1 / 100" by code_simp
  then show ?thesis
    by (simp add: settle_step_def np_argmax_def np_argmin_def Let_def)
qed

lemma single_cent_never_ends: "settle_loop g [p] [1 / 100] acc = None"
proof (rule ccontr)
  assume "settle_loop g [p] [1 / 100] acc \<noteq> None"
  then obtain y where y: "settle_loop g [p] [1 / 100] acc = Some y" by blast
  have "\<not> (g' = g \<and> ps = [p] \<and> bs = [1 / 100])"
    if "settle_loop g' ps bs acc' = Some y'" for g' ps bs acc' y'
  proof (rule settle_loop.raw_induct
      [where P = "\<lambda>g' ps bs acc' y'. \<not> (g' = g \<and> ps = [p] \<and> bs = [1 / 100])", OF _ that])
    fix f g' ps bs acc' y'
    assume IH: "\<And>g' ps bs acc' y'. f g' ps bs acc' = Some y'
        \<Longrightarrow> \<not> (g' = g \<and> ps = [p] \<and> bs = [1 / 100])"
      and body: "(case settle_step g' ps bs of
                    Inl e \<Rightarrow> Some (Inl e)
                  | Inr None \<Rightarrow> Some (Inr acc')
                  | Inr (Some (s, balances')) \<Rightarrow> f g' ps balances' (acc' @ [s])) = Some y'"
    show "\<not> (g' = g \<and> ps = [p] \<and> bs = [1 / 100])"
    proof
      assume a: "g' = g \<and> ps = [p] \<and> bs = [1 / 100]"
      with body have again: "f g [p] [1 / 100] (acc' @ [\<lparr>from_participant = p,
          to_participant = p, settlement_amount = 1 / 100,
          settlement_currency = base_currency g\<rparr>]) = Some y'"
        by (simp add: single_cent_step)
      have "\<not> (g = g \<and> [p] = [p] \<and> [1 / 100 :: rat] = [1 / 100])"
        using again by (rule IH)
      then show False by simp
    qed
  qed
  with y show False by blast
qed

lemma solo_group_balances:
  "get_balances solo_group
     = Inr [\<lparr>row_participant_id = ''p1'', row_name = ''Ivan'', balance = 1 / 100\<rparr>]"
  by code_simp

lemma solo_group_never_settles: "calculate_optimal_settlements solo_group = None"
  by (simp add: calculate_optimal_settlements_def solo_group_balances single_cent_never_ends)

text \<open>
  When the balances sum to 0.01 or -0.01 the loop still ends, one case apart (the single
  balance of 0.01 above): a transfer needs a balance of at least 0.01 and one of at most
  -0.01, it keeps the sum and the whole cents, and it clears one of the two; when no such
  pair is left every balance is 0, 0.01 or -0.01.
\<close>

lemma sum_list_ge_length_times:
  "\<forall>b \<in> set bs. m \<le> b \<Longrightarrow> of_nat (length bs) * m \<le> sum_list (bs :: rat list)"
  by (induction bs) (auto simp: algebra_simps)

lemma member_le_sum_list_rat:
  "\<forall>b \<in> set bs. 0 \<le> b \<Longrightarrow> x \<in> set bs \<Longrightarrow> x \<le> sum_list (bs :: rat list)"
  by (induction bs) (auto simp: sum_list_nonneg add_increasing add_increasing2)

lemma sum_list_le_member_rat:
  "\<forall>b \<in> set bs. b \<le> 0 \<Longrightarrow> x \<in> set bs \<Longrightarrow> sum_list (bs :: rat list) \<le> x"
  using member_le_sum_list_rat [of "map uminus bs" "- x"]
  by (auto simp: sum_list_uminus_rat)

lemma settle_step_mixed:
  assumes ne: "bs \<noteq> []"
    and grid: "\<forall>b \<in> set bs. np_round2 b = b"
    and pos: "\<exists>b \<in> set bs. 0 < b" and neg: "\<exists>b \<in> set bs. b < 0"
  obtains ci di t where
    "ci < length bs" "di < length bs" "ci \<noteq> di"
    "1 / 100 \<le> bs ! ci" "bs ! di \<le> - (1 / 100)"
    "t = min (bs ! ci) (- (bs ! di))"
    "\<And>ps. settle_step g ps bs
       = (if length ps \<le> di \<or> length ps \<le> ci then Inl IndexError
          else Inr (Some (\<lparr>from_participant = ps ! di, to_participant = ps ! ci,
                      settlement_amount = t, settlement_currency = base_currency g\<rparr>,
                    bs[ci := bs ! ci - t, di := bs ! di + t])))"
proof -
  obtain ci where ci: "np_argmax bs = Inr ci" "ci < length bs" "\<forall>x \<in> set bs. x \<le> bs ! ci"
    using np_argmax_props [OF ne] by blast
  obtain di where di: "np_argmin bs = Inr di" "di < length bs" "\<forall>x \<in> set bs. bs ! di \<le> x"
    using np_argmin_props [OF ne] by blast
  let ?mc = "bs ! ci" and ?md = "bs ! di"
  have mem: "?mc \<in> set bs" "?md \<in> set bs" using ci(2) di(2) by auto
  have pos': "0 < ?mc" using pos ci(3) by force
  have neg': "?md < 0" using neg di(3) by force
  have gc: "np_round2 ?mc = ?mc" and gd: "np_round2 ?md = ?md" using grid mem by auto
  have c1: "1 / 100 \<le> ?mc" using cents_nonzero_iff [OF gc] pos' by auto
  have d1: "?md \<le> - (1 / 100)" using cents_nonzero_iff [OF gd] neg' by auto
  have ne_idx: "ci \<noteq> di" using pos' neg' by auto
  let ?t = "min ?mc (- ?md)"
  have abs: "\<bar>?md\<bar> = - ?md" using neg' by simp
  have gt: "np_round2 ?t = ?t" using gc cents_abs [OF gd] abs by (simp add: cents_min)
  have t1: "1 / 100 \<le> ?t" using c1 d1 by simp
  have u: "bs[ci := ?mc - ?t] ! di = ?md" using ne_idx by simp
  have "settle_step g ps bs
       = (if length ps \<le> di \<or> length ps \<le> ci then Inl IndexError
          else Inr (Some (\<lparr>from_participant = ps ! di, to_participant = ps ! ci,
                      settlement_amount = ?t, settlement_currency = base_currency g\<rparr>,
                    bs[ci := ?mc - ?t, di := ?md + ?t])))" for ps
    using c1 d1 t1
    by (simp add: settle_step_def ci(1) di(1) Let_def abs gt u not_less [symmetric])
  then show ?thesis using that [of ci di ?t] ci(2) di(2) ne_idx c1 d1 by blast
qed

lemma settle_step_one_sided:
  assumes ne: "bs \<noteq> []"
    and grid: "\<forall>b \<in> set bs. np_round2 b = b"
    and small: "\<bar>sum_list bs\<bar> \<le> 1 / 100"
    and side: "\<not> ((\<exists>b \<in> set bs. 0 < b) \<and> (\<exists>b \<in> set bs. b < 0))"
    and solo: "\<not> (length bs = 1 \<and> sum_list bs = 1 / 100)"
  shows "settle_step g ps bs = Inr None \<and> (\<forall>b \<in> set bs. \<bar>b\<bar> \<le> 1 / 100)"
proof -
  obtain ci where ci: "np_argmax bs = Inr ci" "ci < length bs" "\<forall>x \<in> set bs. x \<le> bs ! ci"
    using np_argmax_props [OF ne] by blast
  obtain di where di: "np_argmin bs = Inr di" "di < length bs" "\<forall>x \<in> set bs. bs ! di \<le> x"
    using np_argmin_props [OF ne] by blast
  let ?mc = "bs ! ci" and ?md = "bs ! di"
  have mem: "?mc \<in> set bs" "?md \<in> set bs" using ci(2) di(2) by auto
  have gc: "np_round2 ?mc = ?mc" and gd: "np_round2 ?md = ?md" using grid mem by auto
  have le: "?md \<le> ?mc" using ci(3) mem by blast
  show ?thesis
  proof (cases "\<exists>b \<in> set bs. 0 < b")
    case True
    then have nonneg: "\<forall>b \<in> set bs. 0 \<le> b" using side by force
    have bound: "\<forall>b \<in> set bs. \<bar>b\<bar> \<le> 1 / 100"
    proof
      fix b assume b: "b \<in> set bs"
      then have "b \<le> sum_list bs" using nonneg by (intro member_le_sum_list_rat)
      with small nonneg b show "\<bar>b\<bar> \<le> 1 / 100" by auto
    qed
    have "?md < 1 / 100"
    proof (rule ccontr)
      assume "\<not> ?md < 1 / 100"
      then have m: "1 / 100 \<le> ?md" by simp
      then have "\<forall>b \<in> set bs. 1 / 100 \<le> b" using di(3) by force
      then have s: "of_nat (length bs) * (1 / 100) \<le> sum_list bs"
        by (rule sum_list_ge_length_times)
      have "length bs = 1"
      proof (rule ccontr)
        assume "length bs \<noteq> 1"
        moreover have "length bs \<noteq> 0" using ne by simp
        ultimately have "2 \<le> length bs" by linarith
        then have "(2 :: rat) \<le> of_nat (length bs)" by (metis of_nat_le_iff of_nat_numeral)
        with s small show False by simp
      qed
      moreover have "sum_list bs = 1 / 100" using s small calculation by simp
      ultimately show False using solo by blast
    qed
    moreover have "0 \<le> ?md" using nonneg mem by blast
    moreover have "0 \<le> ?mc" using nonneg mem by blast
    ultimately have "np_round2 (min ?mc \<bar>?md\<bar>) < 1 / 100"
      using le gd by (simp add: min_def)
    then have "settle_step g ps bs = Inr None"
      by (simp add: settle_step_def ci(1) di(1) Let_def)
    with bound show ?thesis by blast
  next
    case False
    then have nonpos: "\<forall>b \<in> set bs. b \<le> 0" by force
    have bound: "\<forall>b \<in> set bs. \<bar>b\<bar> \<le> 1 / 100"
    proof
      fix b assume b: "b \<in> set bs"
      then have "sum_list bs \<le> b" using nonpos by (intro sum_list_le_member_rat)
      with small nonpos b show "\<bar>b\<bar> \<le> 1 / 100" by auto
    qed
    have mc0: "?mc \<le> 0" using nonpos mem by blast
    have "0 \<le> \<bar>?md\<bar>" by (rule abs_ge_zero)
    with mc0 have "?mc \<le> \<bar>?md\<bar>" by (rule order_trans)
    then have "min ?mc \<bar>?md\<bar> = ?mc" by (rule min_absorb1)
    then have "np_round2 (min ?mc \<bar>?md\<bar>) < 1 / 100"
      using gc mc0 by simp
    then have "settle_step g ps bs = Inr None"
      by (simp add: settle_step_def ci(1) di(1) Let_def)
    with bound show ?thesis by blast
  qed
qed

lemma transfer_preserves:
  assumes ci: "ci < length bs" and di: "di < length bs" and ne: "ci \<noteq> di"
    and grid: "\<forall>b \<in> set bs. np_round2 b = b"
    and c1: "1 / 100 \<le> bs ! ci" and d1: "bs ! di \<le> - (1 / 100)"
    and t: "t = min (bs ! ci) (- (bs ! di))"
  shows "\<forall>b \<in> set (bs[ci := bs ! ci - t, di := bs ! di + t]). np_round2 b = b"
    and "sum_list (bs[ci := bs ! ci - t, di := bs ! di + t]) = sum_list bs"
    and "significant_count (bs[ci := bs ! ci - t, di := bs ! di + t]) < significant_count bs"
proof -
  let ?b1 = "bs[ci := bs ! ci - t]"
  let ?b2 = "?b1[di := bs ! di + t]"
  have gc: "np_round2 (bs ! ci) = bs ! ci" and gd: "np_round2 (bs ! di) = bs ! di"
    using grid ci di by auto
  have "np_round2 (- (bs ! di)) = - (bs ! di)"
    using cents_diff [of 0 "bs ! di"] gd by (simp add: np_round2_zero)
  then have gt: "np_round2 t = t" unfolding t using gc by (simp add: cents_min)
  have g1: "np_round2 (bs ! ci - t) = bs ! ci - t" using gc gt by (rule cents_diff)
  have g2: "np_round2 (bs ! di + t) = bs ! di + t" using gd gt by (rule cents_add)
  show "\<forall>b \<in> set ?b2. np_round2 b = b"
  proof
    fix b assume "b \<in> set ?b2"
    then have "b = bs ! di + t \<or> b \<in> set ?b1" using set_update_subset_insert by fastforce
    then have "b = bs ! di + t \<or> b = bs ! ci - t \<or> b \<in> set bs"
      using set_update_subset_insert by fastforce
    then show "np_round2 b = b" using g1 g2 grid by auto
  qed
  have u: "?b1 ! di = bs ! di" using ne by simp
  show "sum_list ?b2 = sum_list bs"
    using ci di by (simp add: sum_list_update_rat u)
  have s1: "significant_count ?b1 + 1
      = significant_count bs + (if 1 / 100 \<le> \<bar>bs ! ci - t\<bar> then 1 else 0)"
    using significant_count_update [OF ci, of "bs ! ci - t"] c1 by simp
  have s2: "significant_count ?b2 + 1
      = significant_count ?b1 + (if 1 / 100 \<le> \<bar>bs ! di + t\<bar> then 1 else 0)"
    using significant_count_update [of di ?b1 "bs ! di + t"] di d1 u by simp
  have "bs ! ci - t = 0 \<or> bs ! di + t = 0" unfolding t by (auto simp: min_def)
  then have "(if 1 / 100 \<le> \<bar>bs ! ci - t\<bar> then 1 else 0)
      + (if 1 / 100 \<le> \<bar>bs ! di + t\<bar> then 1 else 0) \<le> (1 :: nat)"
    by auto
  with s1 s2 show "significant_count ?b2 < significant_count bs" by linarith
qed

lemma settle_loop_clears:
  assumes "bs \<noteq> []" "length ps = length bs"
    "\<forall>b \<in> set bs. np_round2 b = b" "\<bar>sum_list bs\<bar> \<le> 1 / 100"
    "\<not> (length bs = 1 \<and> sum_list bs = 1 / 100)"
  shows "\<exists>ss. settle_loop g ps bs acc = Some (Inr (acc @ ss))
           \<and> (distinct ps \<longrightarrow> (\<forall>b \<in> set (fold (settle_vector ps) ss bs). \<bar>b\<bar> \<le> 1 / 100))"
  using assms
proof (induction "significant_count bs" arbitrary: bs acc rule: less_induct)
  case less
  show ?case
  proof (cases "(\<exists>b \<in> set bs. 0 < b) \<and> (\<exists>b \<in> set bs. b < 0)")
    case False
    from settle_step_one_sided [OF less.prems(1,3,4) False less.prems(5), of g ps]
    have st: "settle_step g ps bs = Inr None" and b: "\<forall>b \<in> set bs. \<bar>b\<bar> \<le> 1 / 100"
      by blast+
    have "settle_loop g ps bs acc = Some (Inr (acc @ []))"
      by (subst settle_loop.simps) (simp add: st)
    with b show ?thesis by (intro exI [of _ "[]"]) simp
  next
    case True
    then have pos: "\<exists>b \<in> set bs. 0 < b" and neg: "\<exists>b \<in> set bs. b < 0" by blast+
    from settle_step_mixed [OF less.prems(1,3) pos neg, of g]
    obtain ci di t where ci: "ci < length bs" and di: "di < length bs" and ne: "ci \<noteq> di"
      and c1: "1 / 100 \<le> bs ! ci" and d1: "bs ! di \<le> - (1 / 100)"
      and t: "t = min (bs ! ci) (- (bs ! di))"
      and step0: "\<And>ps. settle_step g ps bs
       = (if length ps \<le> di \<or> length ps \<le> ci then Inl IndexError
          else Inr (Some (\<lparr>from_participant = ps ! di, to_participant = ps ! ci,
                      settlement_amount = t, settlement_currency = base_currency g\<rparr>,
                    bs[ci := bs ! ci - t, di := bs ! di + t])))"
      by blast
    let ?s = "\<lparr>from_participant = ps ! di, to_participant = ps ! ci,
                      settlement_amount = t, settlement_currency = base_currency g\<rparr>"
    let ?bs = "bs[ci := bs ! ci - t, di := bs ! di + t]"
    have step: "settle_step g ps bs = Inr (Some (?s, ?bs))"
      using step0 [of ps] ci di less.prems(2) by simp
    note inv = transfer_preserves [OF ci di ne less.prems(3) c1 d1 t]
    have "\<exists>ss. settle_loop g ps ?bs (acc @ [?s]) = Some (Inr ((acc @ [?s]) @ ss))
           \<and> (distinct ps \<longrightarrow> (\<forall>b \<in> set (fold (settle_vector ps) ss ?bs). \<bar>b\<bar> \<le> 1 / 100))"
      using less.prems inv(1,2) by (intro less.hyps [OF inv(3)]) auto
    then obtain ss where ss0:
      "settle_loop g ps ?bs (acc @ [?s]) = Some (Inr ((acc @ [?s]) @ ss))
           \<and> (distinct ps \<longrightarrow> (\<forall>b \<in> set (fold (settle_vector ps) ss ?bs). \<bar>b\<bar> \<le> 1 / 100))" ..
    from ss0 have ss1: "settle_loop g ps ?bs (acc @ [?s]) = Some (Inr ((acc @ [?s]) @ ss))"
      by (elim conjE)
    from ss0 have ss2: "distinct ps \<longrightarrow>
        (\<forall>b \<in> set (fold (settle_vector ps) ss ?bs). \<bar>b\<bar> \<le> 1 / 100)"
      by (elim conjE)
    have run: "settle_loop g ps bs acc = Some (Inr (acc @ ?s # ss))"
      by (subst settle_loop.simps) (simp add: step ss1)
    have final: "\<forall>b \<in> set (fold (settle_vector ps) (?s # ss) bs). \<bar>b\<bar> \<le> 1 / 100"
      if "distinct ps"
      using that ss2 settle_vector_update [OF that less.prems(2) ci di ne, of t "base_currency g"]
      by simp
    show ?thesis
      using run final by (intro exI [of _ "?s # ss"]) simp
  qed
qed

lemma settlements_within_tolerance:
  assumes rows: "get_balances g = Inr rows" and ne: "rows \<noteq> []"
    and small: "\<bar>sum_list (map balance rows)\<bar> \<le> 1 / 100"
    and lone: "\<not> (length rows = 1 \<and> sum_list (map balance rows) = 1 / 100)"
  shows "\<exists>ss. calculate_optimal_settlements g = Some (Inr ss, g)
           \<and> (distinct (ids_of g) \<longrightarrow>
                 (\<forall>r \<in> set (fold apply_settlement ss rows). \<bar>balance r\<bar> \<le> 1 / 100))"
proof -
  let ?ps = "map row_participant_id rows" and ?bs = "map balance rows"
  have r: "rows = balance_rows g" using rows by (rule get_balances_Inr)
  have ids: "?ps = ids_of g" unfolding r by (rule balance_rows_ids)
  have grid: "\<forall>b \<in> set ?bs. np_round2 b = b" unfolding r by (rule balance_rows_cents)
  have l: "\<not> (length ?bs = 1 \<and> sum_list ?bs = 1 / 100)" using lone by simp
  have "?bs \<noteq> []" "length ?ps = length ?bs" using ne by simp_all
  from settle_loop_clears [OF this grid small l, of g "[]"]
  obtain ss where ss0: "settle_loop g ?ps ?bs [] = Some (Inr ([] @ ss))
           \<and> (distinct ?ps \<longrightarrow>
                (\<forall>b \<in> set (fold (settle_vector ?ps) ss ?bs). \<bar>b\<bar> \<le> 1 / 100))" ..
  from ss0 have run: "settle_loop g ?ps ?bs [] = Some (Inr ss)" by simp
  from ss0 have fin: "distinct ?ps \<longrightarrow>
      (\<forall>b \<in> set (fold (settle_vector ?ps) ss ?bs). \<bar>b\<bar> \<le> 1 / 100)"
    by (elim conjE)
  have calc: "calculate_optimal_settlements g = Some (Inr ss, g)"
    using ne by (simp add: calculate_optimal_settlements_def rows run)
  have "\<forall>r \<in> set (fold apply_settlement ss rows). \<bar>balance r\<bar> \<le> 1 / 100"
    if "distinct (ids_of g)"
  proof -
    have "\<forall>b \<in> set (map balance (fold apply_settlement ss rows)). \<bar>b\<bar> \<le> 1 / 100"
      using fin that unfolding ids [symmetric] fold_apply_settlement by blast
    then show ?thesis by auto
  qed
  with calc show ?thesis by blast
qed

section \<open>The two outcomes of add_expense_shares\<close>

lemma finite_amounts_Fin: "finite_amounts (map Fin xs) = Some xs"
  by (induction xs) auto

lemma shares_amounts_finite:
  assumes "tot \<noteq> 0"
  shows "map (\<lambda>(p, share_count).
            np_round2_float (np_multiply t (np_true_divide (sint share_count) tot))) shs
         = map Fin (map (\<lambda>(p, share_count :: 64 word).
                       np_round2 (t * (of_int (sint share_count) / of_int tot))) shs)"
  using assms by (induction shs) (auto simp: np_true_divide_def)

lemma finite_amounts_None:
  "xs \<noteq> [] \<Longrightarrow> \<forall>x \<in> set xs. x \<in> {PosInf, NegInf, NaN} \<Longrightarrow> finite_amounts xs = None"
  by (cases xs) auto

lemma division_by_zero_amount:
  "np_round2_float (np_multiply t (np_true_divide a 0)) \<in> {PosInf, NegInf, NaN}"
  by (simp add: np_true_divide_def)

lemma shares_amounts_zero:
  "\<forall>x \<in> set (map (\<lambda>(p, share_count :: 64 word).
            np_round2_float (np_multiply t (np_true_divide (sint share_count) 0))) shs).
     x \<in> {PosInf, NegInf, NaN}"
proof (induction shs)
  case Nil
  show ?case by simp
next
  case (Cons x shs)
  obtain p c where x: "x = (p, c)" by (cases x)
  show ?case using Cons division_by_zero_amount [of t "sint c"] unfolding x by simp
qed

lemma add_expense_shares_finite:
  assumes "shs = [] \<or> sum_list (map snd shs) \<noteq> 0"
  shows "add_expense_shares g descr t paid shs cur cat
    = (let expense = \<lparr>description = descr, total_amount = t, paid_by = paid,
                       currency = cur, split_method = SHARES,
                       splits = map (\<lambda>(p, share_count). \<lparr>participant_id = p,
                                       amount = np_round2 (t * (of_int (sint share_count)
                                                  / of_int (sint (sum_list (map snd shs))))),
                                       percentage = None, shares = Some (sint share_count)\<rparr>)
                                    shs,
                       is_recurring = False, category = cat\<rparr>
       in Finite (Inr expense, g\<lparr>expenses := expenses g @ [expense]\<rparr>))"
proof (cases "shs = []")
  case True
  then show ?thesis by (simp add: add_expense_shares_def Let_def)
next
  case False
  with assms have "sint (sum_list (map snd shs)) \<noteq> 0" by (simp add: signed_eq_0_iff)
  note a = shares_amounts_finite [OF this, of t shs]
  have z: "map (\<lambda>((p, c), amt). \<lparr>participant_id = p, amount = amt, percentage = None,
                                  shares = Some (sint c)\<rparr>)
             (zip shs (map (\<lambda>(p, c :: 64 word). f c) shs))
      = map (\<lambda>(p, c). \<lparr>participant_id = p, amount = f c, percentage = None,
                          shares = Some (sint c)\<rparr>) shs" for f :: "64 word \<Rightarrow> rat"
    by (induction shs) auto
  show ?thesis
    unfolding add_expense_shares_def Let_def a finite_amounts_Fin
    by (simp add: z)
qed

lemma add_expense_shares_nonfinite:
  assumes "shs \<noteq> []" "sum_list (map snd shs) = 0"
  shows "\<exists>e. add_expense_shares g descr t paid shs cur cat
           = Inf_or_NaN (e, (float_group g)\<lparr>fg_expenses := fg_expenses (float_group g) @ [e]\<rparr>)
         \<and> fe_paid_by e = paid \<and> fe_total_amount e = t
         \<and> map fs_participant_id (fe_splits e) = map fst shs
         \<and> (\<forall>s \<in> set (fe_splits e). fs_amount s \<in> {PosInf, NegInf, NaN})"
proof -
  let ?amounts = "map (\<lambda>(p, share_count :: 64 word).
            np_round2_float (np_multiply t (np_true_divide (sint share_count) 0))) shs"
  have n: "finite_amounts ?amounts = None"
    using assms(1) by (intro finite_amounts_None shares_amounts_zero) simp
  have len: "length ?amounts = length shs" by simp
  have ids: "map fs_participant_id (map (\<lambda>((p, c), amt).
              \<lparr>fs_participant_id = p, fs_amount = amt, fs_percentage = None,
                 fs_shares = Some (sint c)\<rparr>) (zip shs ?amounts)) = map fst shs"
    by (induction shs) auto
  have am: "\<forall>s \<in> set (map (\<lambda>((p, c), amt).
              \<lparr>fs_participant_id = p, fs_amount = amt, fs_percentage = None,
                 fs_shares = Some (sint c)\<rparr>) (zip shs ?amounts)).
            fs_amount s \<in> {PosInf, NegInf, NaN}"
    using shares_amounts_zero [of t shs] by (auto dest!: set_zip_rightD)
  show ?thesis
    using ids am
    by (simp add: add_expense_shares_def Let_def assms(2) n)
qed

text \<open>
  The share counts are summed as 64-bit integers, so four shares of \<open>2 ^ 62\<close> sum to 0
  and the amounts are infinite. With no shares the call appends an expense without splits;
  with the shares 2, 1, 1 of the test suite the amounts are 20, 10 and 10.
\<close>

lemma add_expense_shares_wrapped_sum:
  "sint (sum_list (map snd [(''p1'', 2 ^ 62 :: 64 word), (''p2'', 2 ^ 62), (''p3'', 2 ^ 62),
                             (''p4'', 2 ^ 62)])) = 0
   \<and> (\<exists>e. add_expense_shares demo_group ''Pizza'' 40 ''p2''
             [(''p1'', 2 ^ 62), (''p2'', 2 ^ 62), (''p3'', 2 ^ 62), (''p4'', 2 ^ 62)] ''BGN'' None
           = Inf_or_NaN (e, (float_group demo_group)\<lparr>fg_expenses := [e]\<rparr>)
        \<and> map fs_amount (fe_splits e) = [PosInf, PosInf, PosInf, PosInf])"
  by (simp add: add_expense_shares_def demo_group_def float_group_def np_true_divide_def Let_def)

lemma add_expense_shares_empty:
  "add_expense_shares demo_group ''Pizza'' 40 ''p2'' [] ''BGN'' None
       = Finite (Inr \<lparr>description = ''Pizza'', total_amount = 40, paid_by = ''p2'',
                       currency = ''BGN'', split_method = SHARES, splits = [],
                       is_recurring = False, category = None\<rparr>,
                 demo_group\<lparr>expenses :=
                   [\<lparr>description = ''Pizza'', total_amount = 40, paid_by = ''p2'',
                       currency = ''BGN'', split_method = SHARES, splits = [],
                       is_recurring = False, category = None\<rparr>]\<rparr>)"
  by (simp add: add_expense_shares_def demo_group_def Let_def)

lemma test_shares_call:
  "add_expense_shares demo_group ''Pizza'' 40 ''p2''
     [(''p1'', 2), (''p2'', 1), (''p3'', 1)] ''BGN'' None
   = Finite (Inr \<lparr>description = ''Pizza'', total_amount = 40, paid_by = ''p2'',
                   currency = ''BGN'', split_method = SHARES,
                   splits = [\<lparr>participant_id = ''p1'', amount = 20,
                                percentage = None, shares = Some 2\<rparr>,
                             \<lparr>participant_id = ''p2'', amount = 10,
                                percentage = None, shares = Some 1\<rparr>,
                             \<lparr>participant_id = ''p3'', amount = 10,
                                percentage = None, shares = Some 1\<rparr>],
                   is_recurring = False, category = None\<rparr>,
             demo_group\<lparr>expenses :=
               [\<lparr>description = ''Pizza'', total_amount = 40, paid_by = ''p2'',
                   currency = ''BGN'', split_method = SHARES,
                   splits = [\<lparr>participant_id = ''p1'', amount = 20,
                                percentage = None, shares = Some 2\<rparr>,
                             \<lparr>participant_id = ''p2'', amount = 10,
                                percentage = None, shares = Some 1\<rparr>,
                             \<lparr>participant_id = ''p3'', amount = 10,
                                percentage = None, shares = Some 1\<rparr>],
                   is_recurring = False, category = None\<rparr>]\<rparr>)"
  by code_simp

section \<open>The float64 aggregation and the exact one\<close>

text \<open>
  On a ledger of whole cents the float64 aggregation follows the exact one: after \<open>n\<close>
  additions a float balance is within \<open>n * 2e-7\<close> of the exact balance, which is a
  whole number of cents, so that \<open>np.round\<close> brings it back to that number of cents.
\<close>

lemma cents_uminus: "np_round2 c = c \<Longrightarrow> np_round2 (- c) = - c"
  using cents_diff [of 0 c] by (simp add: np_round2_zero)

lemma dict_add_close:
  assumes close: "balances_close E w bf be"
    and near: "\<bar>a - c\<bar> \<le> d" and cents: "np_round2 c = c"
    and room: "E + d \<le> 1" and vol: "w + \<bar>c\<bar> \<le> W"
    and eta: "d + (W + 1) / 2 ^ 53 \<le> h"
  shows "rel_sum (=) (balances_close (E + h) (w + \<bar>c\<bar>))
           (dict_add_f64 bf k a) (dict_add be k c)"
proof (cases "bf k")
  case None
  have "dom bf = dom be" using close by (simp add: balances_close_def)
  with None have "be k = None" by (metis domIff)
  with None show ?thesis by (simp add: dict_add_f64_def dict_add_def)
next
  case (Some x)
  have "dom bf = dom be" using close by (simp add: balances_close_def)
  with Some obtain v where v: "be k = Some v" by (metis domIff option.exhaust option.distinct(1))
  from close Some v have xv: "\<bar>x - v\<bar> \<le> E" and vw: "\<bar>v\<bar> \<le> w" and vc: "np_round2 v = v"
    by (auto simp: balances_close_def)
  have d0: "0 \<le> d" using near by linarith
  have h0: "0 \<le> h"
  proof -
    have "0 \<le> w" using vw by linarith
    then have "0 \<le> (W + 1) / 2 ^ 53" using vol by simp
    then show ?thesis using eta d0 by linarith
  qed
  have "\<bar>x + a\<bar> \<le> \<bar>v + c\<bar> + \<bar>x - v\<bar> + \<bar>a - c\<bar>" by linarith
  also have "\<dots> \<le> W + 1" using xv near vw vol room by linarith
  finally have big: "\<bar>x + a\<bar> \<le> W + 1" .
  have "\<bar>f64 (x + a) - (x + a)\<bar> \<le> \<bar>x + a\<bar> / 2 ^ 53" by (rule f64_error)
  also have "\<dots> \<le> (W + 1) / 2 ^ 53" using big by (simp add: divide_right_mono)
  finally have r: "\<bar>f64 (x + a) - (x + a)\<bar> \<le> (W + 1) / 2 ^ 53" .
  have err: "\<bar>f64 (x + a) - (v + c)\<bar> \<le> E + h" using r xv near eta by linarith
  have vol': "\<bar>v + c\<bar> \<le> w + \<bar>c\<bar>" using vw by linarith
  have cents': "np_round2 (v + c) = v + c" using vc cents by (rule cents_add)
  have "balances_close (E + h) (w + \<bar>c\<bar>) (bf(k \<mapsto> f64 (x + a))) (be(k \<mapsto> v + c))"
    unfolding balances_close_def
  proof (intro conjI allI impI)
    show "dom (bf(k \<mapsto> f64 (x + a))) = dom (be(k \<mapsto> v + c))"
      using close by (simp add: balances_close_def)
  next
    fix i y u
    assume y: "(bf(k \<mapsto> f64 (x + a))) i = Some y" and u: "(be(k \<mapsto> v + c)) i = Some u"
    show "\<bar>y - u\<bar> \<le> E + h"
    proof (cases "i = k")
      case True
      with y u err show ?thesis by simp
    next
      case False
      with y u close have "\<bar>y - u\<bar> \<le> E" by (auto simp: balances_close_def)
      with h0 show ?thesis by linarith
    qed
    show "\<bar>u\<bar> \<le> w + \<bar>c\<bar>"
    proof (cases "i = k")
      case True
      with u vol' show ?thesis by simp
    next
      case False
      with y u close have "\<bar>u\<bar> \<le> w" by (auto simp: balances_close_def)
      then show ?thesis by linarith
    qed
    show "np_round2 u = u"
    proof (cases "i = k")
      case True
      with u cents' show ?thesis by simp
    next
      case False
      with y u close show ?thesis by (auto simp: balances_close_def)
    qed
  qed
  then show ?thesis by (simp add: dict_add_f64_def dict_add_def Some v)
qed

lemma dict_sub_close:
  assumes close: "balances_close E w bf be"
    and near: "\<bar>a - c\<bar> \<le> d" and cents: "np_round2 c = c"
    and room: "E + d \<le> 1" and vol: "w + \<bar>c\<bar> \<le> W"
    and eta: "d + (W + 1) / 2 ^ 53 \<le> h"
  shows "rel_sum (=) (balances_close (E + h) (w + \<bar>c\<bar>))
           (dict_sub_f64 bf k a) (dict_add be k (- c))"
proof -
  have s: "dict_sub_f64 bf k a = dict_add_f64 bf k (- a)"
    by (simp add: dict_sub_f64_def dict_add_f64_def split: option.splits)
  have n: "\<bar>- a - - c\<bar> \<le> d" using near by linarith
  have c: "np_round2 (- c) = - c" using cents by (rule cents_uminus)
  have v: "w + \<bar>- c\<bar> \<le> W" using vol by simp
  from dict_add_close [OF close n c room v eta, of k]
  show ?thesis unfolding s by simp
qed

lemma cents_split_sel:
  "participant_id (cents_split s) = participant_id s"
  "amount (cents_split s) = np_round2 (amount s)"
  by (simp_all add: cents_split_def)

lemma cents_expense_sel:
  "paid_by (cents_expense e) = paid_by e"
  "total_amount (cents_expense e) = np_round2 (total_amount e)"
  "splits (cents_expense e) = map cents_split (splits e)"
  by (simp_all add: cents_expense_def)

lemma eta_nonneg:
  assumes "0 \<le> d" "0 \<le> W" "d + (W + 1) / 2 ^ 53 \<le> (h :: rat)"
  shows "0 \<le> h"
proof -
  have "0 \<le> (W + 1) / 2 ^ 53" using assms(2) by simp
  then show ?thesis using assms(1,3) by linarith
qed

lemma debit_splits_close:
  assumes close: "balances_close E w bf be"
    and near: "\<forall>s \<in> set ss. \<bar>amount s - np_round2 (amount s)\<bar> \<le> d"
    and room: "E + of_nat (length ss) * h + d \<le> 1"
    and vol: "w + sum_list (map (\<lambda>s. \<bar>np_round2 (amount s)\<bar>) ss) \<le> W"
    and eta: "d + (W + 1) / 2 ^ 53 \<le> h" and d0: "0 \<le> d" and W0: "0 \<le> W"
  shows "rel_sum (=) (balances_close (E + of_nat (length ss) * h)
                        (w + sum_list (map (\<lambda>s. \<bar>np_round2 (amount s)\<bar>) ss)))
           (debit_splits_f64 bf ss) (debit_splits be (map cents_split ss))"
  using close near room vol
proof (induction ss arbitrary: E w bf be)
  case Nil
  then show ?case by simp
next
  case (Cons s ss)
  let ?c = "np_round2 (amount s)"
  have h0: "0 \<le> h" using d0 W0 eta by (rule eta_nonneg)
  have lh: "0 \<le> of_nat (length ss) * h" using h0 by simp
  have sv: "0 \<le> sum_list (map (\<lambda>s. \<bar>np_round2 (amount s)\<bar>) ss)"
    by (rule sum_list_nonneg) auto
  have n1: "\<bar>amount s - ?c\<bar> \<le> d" using Cons.prems(2) by simp
  have c1: "np_round2 ?c = ?c" by (rule cents_round)
  have "0 \<le> of_nat (length (s # ss)) * h" using h0 by simp
  then have r1: "E + d \<le> 1" using Cons.prems(3) by linarith
  have v1: "w + \<bar>?c\<bar> \<le> W" using Cons.prems(4) sv by simp
  have step: "rel_sum (=) (balances_close (E + h) (w + \<bar>?c\<bar>))
      (dict_sub_f64 bf (participant_id s) (amount s)) (dict_add be (participant_id s) (- ?c))"
    using Cons.prems(1) n1 c1 r1 v1 eta by (rule dict_sub_close)
  from step show ?case
  proof (cases rule: rel_sum.cases)
    case (1 a b)
    then show ?thesis by (simp add: cents_split_sel)
  next
    case (2 bf' be')
    note Inr = this
    have n2: "\<forall>s \<in> set ss. \<bar>amount s - np_round2 (amount s)\<bar> \<le> d"
      using Cons.prems(2) by simp
    have r2: "E + h + of_nat (length ss) * h + d \<le> 1"
      using Cons.prems(3) by (simp add: algebra_simps)
    have v2: "w + \<bar>?c\<bar> + sum_list (map (\<lambda>s. \<bar>np_round2 (amount s)\<bar>) ss) \<le> W"
      using Cons.prems(4) by simp
    from Cons.IH [OF Inr(3) n2 r2 v2]
    have "rel_sum (=) (balances_close (E + of_nat (length (s # ss)) * h)
                        (w + sum_list (map (\<lambda>s. \<bar>np_round2 (amount s)\<bar>) (s # ss))))
           (debit_splits_f64 bf' ss) (debit_splits be' (map cents_split ss))"
      by (simp add: algebra_simps)
    then show ?thesis using Inr(1,2) by (simp add: cents_split_sel)
  qed
qed

lemma add_expenses_close:
  assumes close: "balances_close E w bf be"
    and near: "\<forall>x \<in> set (concat (map amounts_of es)). \<bar>x - np_round2 x\<bar> \<le> d"
    and room: "E + of_nat (length (concat (map amounts_of es))) * h + d \<le> 1"
    and vol: "w + sum_list (map (\<lambda>x. \<bar>np_round2 x\<bar>) (concat (map amounts_of es))) \<le> W"
    and eta: "d + (W + 1) / 2 ^ 53 \<le> h" and d0: "0 \<le> d" and W0: "0 \<le> W"
  shows "rel_sum (=) (balances_close (E + of_nat (length (concat (map amounts_of es))) * h)
                        (w + sum_list (map (\<lambda>x. \<bar>np_round2 x\<bar>) (concat (map amounts_of es)))))
           (add_expenses_f64 bf es) (add_expenses be (map cents_expense es))"
  using close near room vol
proof (induction es arbitrary: E w bf be)
  case Nil
  then show ?case by simp
next
  case (Cons e es)
  let ?A = "concat (map amounts_of es)"
  let ?t = "np_round2 (total_amount e)"
  let ?sv = "sum_list (map (\<lambda>s. \<bar>np_round2 (amount s)\<bar>) (splits e))"
  let ?n = "length (splits e)"
  have h0: "0 \<le> h" using d0 W0 eta by (rule eta_nonneg)
  have len: "length (concat (map amounts_of (e # es))) = Suc (?n + length ?A)"
    by (simp add: amounts_of_def)
  have sum: "sum_list (map (\<lambda>x. \<bar>np_round2 x\<bar>) (concat (map amounts_of (e # es))))
      = \<bar>?t\<bar> + ?sv + sum_list (map (\<lambda>x. \<bar>np_round2 x\<bar>) ?A)"
    by (simp add: amounts_of_def comp_def)
  have room': "E + h + of_nat ?n * h + of_nat (length ?A) * h + d \<le> 1"
    using Cons.prems(3) unfolding len by (simp add: algebra_simps)
  have vol': "w + \<bar>?t\<bar> + ?sv + sum_list (map (\<lambda>x. \<bar>np_round2 x\<bar>) ?A) \<le> W"
    using Cons.prems(4) unfolding sum by simp
  have p1: "0 \<le> of_nat ?n * h" "0 \<le> of_nat (length ?A) * h" using h0 by simp_all
  have p2: "0 \<le> ?sv" "0 \<le> sum_list (map (\<lambda>x. \<bar>np_round2 x\<bar>) ?A)"
    by (rule sum_list_nonneg, auto)+
  have n1: "\<bar>total_amount e - ?t\<bar> \<le> d" using Cons.prems(2) by (simp add: amounts_of_def)
  have c1: "np_round2 ?t = ?t" by (rule cents_round)
  have r1: "E + d \<le> 1" using room' p1 h0 by linarith
  have v1: "w + \<bar>?t\<bar> \<le> W" using vol' p2 by linarith
  have step1: "rel_sum (=) (balances_close (E + h) (w + \<bar>?t\<bar>))
      (dict_add_f64 bf (paid_by e) (total_amount e)) (dict_add be (paid_by e) ?t)"
    using Cons.prems(1) n1 c1 r1 v1 eta by (rule dict_add_close)
  from step1 show ?case
  proof (cases rule: rel_sum.cases)
    case (1 a b)
    then show ?thesis by (simp add: cents_expense_sel)
  next
    case (2 bf1 be1)
    note Inr = this
    have n2: "\<forall>s \<in> set (splits e). \<bar>amount s - np_round2 (amount s)\<bar> \<le> d"
      using Cons.prems(2) by (simp add: amounts_of_def)
    have r2: "E + h + of_nat ?n * h + d \<le> 1" using room' p1 by linarith
    have v2: "w + \<bar>?t\<bar> + ?sv \<le> W" using vol' p2 by linarith
    have step2: "rel_sum (=) (balances_close (E + h + of_nat ?n * h) (w + \<bar>?t\<bar> + ?sv))
        (debit_splits_f64 bf1 (splits e)) (debit_splits be1 (map cents_split (splits e)))"
      using Inr(3) n2 r2 v2 eta d0 W0 by (rule debit_splits_close)
    from step2 show ?thesis
    proof (cases rule: rel_sum.cases)
      case (1 a b)
      then show ?thesis using Inr(1,2) by (simp add: cents_expense_sel)
    next
      case (2 bf2 be2)
      note two = this
      have n3: "\<forall>x \<in> set ?A. \<bar>x - np_round2 x\<bar> \<le> d" using Cons.prems(2) by simp
      from Cons.IH [OF two(3) n3 room' vol']
      have "rel_sum (=) (balances_close (E + of_nat (length (concat (map amounts_of (e # es)))) * h)
             (w + sum_list (map (\<lambda>x. \<bar>np_round2 x\<bar>) (concat (map amounts_of (e # es))))))
           (add_expenses_f64 bf2 es) (add_expenses be2 (map cents_expense es))"
        unfolding len sum by (simp add: algebra_simps)
      then show ?thesis
        using Inr(1,2) two(1,2)
        by (simp add: cents_expense_sel)
    qed
  qed
qed

lemma np_round2_f64_cents:
  assumes xv: "\<bar>x - v\<bar> \<le> E" and vw: "\<bar>v\<bar> \<le> W" and cents: "np_round2 v = v"
    and E1: "E \<le> 1" and small: "100 * E + 100 * (W + 1) / 2 ^ 53 < 1 / 2"
  shows "np_round2_f64 x = f64 v"
proof -
  define N where "N = np_rint (v * 100)"
  have v: "v = of_int N / 100" using cents unfolding np_round2_def N_def by simp
  have "\<bar>x\<bar> \<le> W + 1" using xv vw E1 by linarith
  then have big: "\<bar>x * 100\<bar> \<le> 100 * (W + 1)" by (simp add: abs_mult)
  have "\<bar>f64 (x * 100) - x * 100\<bar> \<le> \<bar>x * 100\<bar> / 2 ^ 53" by (rule f64_error)
  also have "\<dots> \<le> 100 * (W + 1) / 2 ^ 53" using big by (simp add: divide_right_mono)
  finally have r: "\<bar>f64 (x * 100) - x * 100\<bar> \<le> 100 * (W + 1) / 2 ^ 53" .
  have "x * 100 - of_int N = 100 * (x - v)" unfolding v by simp
  then have "\<bar>x * 100 - of_int N\<bar> = 100 * \<bar>x - v\<bar>" by (simp only: abs_mult)
  then have "\<bar>x * 100 - of_int N\<bar> \<le> 100 * E" using xv by simp
  with r small have "\<bar>f64 (x * 100) - of_int N\<bar> < 1 / 2" by linarith
  then have "np_rint (f64 (x * 100)) = N" by (rule np_rint_near)
  then show ?thesis unfolding np_round2_f64_def v by simp
qed

lemma build_rows_close:
  assumes close: "balances_close E w bf be"
    and E1: "E \<le> 1" and small: "100 * E + 100 * (w + 1) / 2 ^ 53 < 1 / 2"
  shows "rel_sum (=) (\<lambda>rf re. rf = map f64_row re) (build_rows_f64 bf ps) (build_rows be ps)"
proof (induction ps)
  case Nil
  show ?case by simp
next
  case (Cons p ps)
  have d: "dom bf = dom be" using close by (simp add: balances_close_def)
  show ?case
  proof (cases "bf (pid p)")
    case None
    with d have "be (pid p) = None" by (metis domIff)
    with None show ?thesis by simp
  next
    case (Some x)
    with d obtain v where v: "be (pid p) = Some v"
      by (metis domIff option.exhaust option.distinct(1))
    from close Some v have "\<bar>x - v\<bar> \<le> E" "\<bar>v\<bar> \<le> w" and c: "np_round2 v = v"
      by (auto simp: balances_close_def)
    then have "np_round2_f64 x = f64 v" using E1 small by (intro np_round2_f64_cents)
    then have row: "np_round2_f64 x = f64 (np_round2 v)" using c by simp
    from Cons.IH show ?thesis
    proof (cases rule: rel_sum.cases)
      case (1 a b)
      then show ?thesis by (simp add: Some v)
    next
      case (2 rf re)
      then show ?thesis by (simp add: Some v row f64_row_def)
    qed
  qed
qed

lemma sum_list_abs_cents:
  assumes "\<forall>x \<in> set xs. \<bar>x - np_round2 x\<bar> \<le> d"
  shows "sum_list (map (\<lambda>x. \<bar>np_round2 x\<bar>) xs) \<le> sum_list (map abs xs) + of_nat (length xs) * d"
  using assms
proof (induction xs)
  case Nil
  show ?case by simp
next
  case (Cons x xs)
  then have "\<bar>np_round2 x\<bar> \<le> \<bar>x\<bar> + d" by (simp add: abs_le_iff) linarith
  with Cons show ?case by (simp add: algebra_simps)
qed

lemma get_balances_f64_cents:
  assumes "cent_ledger (expenses g)"
  shows "get_balances_f64 g
           = map_sum id (map f64_row)
               (get_balances (g\<lparr>expenses := map cents_expense (expenses g)\<rparr>))"
proof -
  let ?A = "concat (map amounts_of (expenses g))"
  let ?init = "map_of (map (\<lambda>p. (pid p, 0 :: rat)) (participants g))"
  let ?d = "1 / 10 ^ 9 :: rat" and ?h = "2 / 10 ^ 7 :: rat" and ?W = "10 ^ 9 + 1 :: rat"
  let ?v = "sum_list (map (\<lambda>x. \<bar>np_round2 x\<bar>) ?A)"
  from assms have near: "\<forall>x \<in> set ?A. \<bar>x - np_round2 x\<bar> \<le> ?d"
    and len: "length ?A \<le> 10000" and tot: "sum_list (map abs ?A) \<le> 10 ^ 9"
    by (simp_all add: cent_ledger_def Let_def list_all_iff)
  have lenr: "(of_nat (length ?A) :: rat) \<le> 10000" using len by (metis of_nat_le_iff of_nat_numeral)
  have init: "balances_close 0 0 ?init ?init"
    by (auto simp: balances_close_def initial_balances np_round2_zero split: if_splits)
  have room: "0 + of_nat (length ?A) * ?h + ?d \<le> 1" using lenr by simp
  have "?v \<le> sum_list (map abs ?A) + of_nat (length ?A) * ?d"
    using near by (rule sum_list_abs_cents)
  then have v: "?v \<le> 10 ^ 9 + 1 / 10 ^ 5" using tot lenr by simp
  then have vol: "0 + ?v \<le> ?W" by simp
  have eta: "?d + (?W + 1) / 2 ^ 53 \<le> ?h" by simp
  have run: "rel_sum (=) (balances_close (0 + of_nat (length ?A) * ?h) (0 + ?v))
      (add_expenses_f64 ?init (expenses g)) (add_expenses ?init (map cents_expense (expenses g)))"
    using init near room vol eta by (rule add_expenses_close) simp_all
  from run show ?thesis
  proof (cases rule: rel_sum.cases)
    case (1 a b)
    then show ?thesis by (simp add: get_balances_f64_def get_balances_def)
  next
    case (2 bf be)
    define Ef :: rat where "Ef = 0 + of_nat (length ?A) * ?h"
    define vf :: rat where "vf = 0 + ?v"
    have E: "Ef \<le> 1 / 500" unfolding Ef_def using lenr by simp
    then have E1: "Ef \<le> 1" by linarith
    have vf: "vf \<le> 10 ^ 9 + 1" unfolding vf_def using v by simp
    have "100 * (vf + 1) / 2 ^ 53 \<le> 100 * (10 ^ 9 + 1 + 1) / 2 ^ 53"
      using vf by (intro divide_right_mono mult_left_mono) simp_all
    moreover have "100 * (10 ^ 9 + 1 + 1) / 2 ^ 53 < (1 / 10 :: rat)" by simp
    ultimately have "100 * (vf + 1) / 2 ^ 53 < 1 / 10" by linarith
    then have small: "100 * Ef + 100 * (vf + 1) / 2 ^ 53 < 1 / 2" using E by linarith
    have close: "balances_close Ef vf bf be" unfolding Ef_def vf_def by (rule 2(3))
    from build_rows_close [OF close E1 small, of "participants g"]
    show ?thesis
    proof (cases rule: rel_sum.cases)
      case (1 a b)
      then show ?thesis using 2(1,2) by (simp add: get_balances_f64_def get_balances_def)
    next
      case inner: (2 rf re)
      then show ?thesis using 2(1,2) by (simp add: get_balances_f64_def get_balances_def)
    qed
  qed
qed

lemma get_balances_exact_permute:
  assumes "mset es = mset (expenses g)"
  shows "get_balances (g\<lparr>expenses := es\<rparr>) = get_balances g"
proof (cases "\<forall>e \<in> set (expenses g). refs_known (ids_of g) e")
  case True
  have s: "set es = set (expenses g)" using assms by (rule mset_eq_setD)
  have "get_balances (g\<lparr>expenses := es\<rparr>) = Inr (balance_rows (g\<lparr>expenses := es\<rparr>))"
    using True s by (intro get_balances_known) simp
  moreover have "get_balances g = Inr (balance_rows g)"
    using True by (rule get_balances_known)
  ultimately show ?thesis using balance_rows_mset [OF assms] by simp
next
  case False
  have s: "set es = set (expenses g)" using assms by (rule mset_eq_setD)
  have "get_balances (g\<lparr>expenses := es\<rparr>) = Inl KeyError"
    using False s by (intro get_balances_unknown) simp
  moreover have "get_balances g = Inl KeyError"
    using False by (intro get_balances_unknown) blast
  ultimately show ?thesis by simp
qed

lemma cent_ledger_mset:
  assumes "mset es = mset es'"
  shows "cent_ledger es = cent_ledger es'"
proof -
  have c: "mset (concat (map amounts_of xs)) = (\<Sum>x \<in># mset xs. mset (amounts_of x))" for xs
    by (induction xs) simp_all
  have m: "mset (concat (map amounts_of es)) = mset (concat (map amounts_of es'))"
    unfolding c assms ..
  have s: "set (concat (map amounts_of es)) = set (concat (map amounts_of es'))"
    using m by (rule mset_eq_setD)
  have l: "length (concat (map amounts_of es)) = length (concat (map amounts_of es'))"
    using m by (rule mset_eq_length)
  have "mset (map abs (concat (map amounts_of es))) = mset (map abs (concat (map amounts_of es')))"
    unfolding mset_map m ..
  then have "sum_mset (mset (map abs (concat (map amounts_of es))))
      = sum_mset (mset (map abs (concat (map amounts_of es'))))"
    by (rule arg_cong)
  then have a: "sum_list (map abs (concat (map amounts_of es)))
      = sum_list (map abs (concat (map amounts_of es')))"
    unfolding sum_mset_sum_list .
  show ?thesis unfolding cent_ledger_def Let_def list_all_iff s l a ..
qed

lemma whole_cent_loans:
  "cent_ledger [loan ''p1'' ''p2'' (f64 (201 / 100)), loan ''p1'' ''p2'' (f64 (18 / 100)),
                loan ''p2'' ''p1'' (f64 (218 / 100))]"
  by code_simp

lemma whole_cent_loans_balances:
  "get_balances_f64 (pair_group\<lparr>expenses :=
       [loan ''p1'' ''p2'' (f64 (201 / 100)), loan ''p1'' ''p2'' (f64 (18 / 100)),
        loan ''p2'' ''p1'' (f64 (218 / 100))]\<rparr>)
     = Inr [\<lparr>row_participant_id = ''p1'', row_name = ''Ivan'', balance = f64 (1 / 100)\<rparr>,
            \<lparr>row_participant_id = ''p2'', row_name = ''Maria'', balance = f64 (- (1 / 100))\<rparr>]"
  by code_simp

section \<open>The planner on the heap and on values\<close>

text \<open>
  The loop writes to the address of its own table only. The table is allocated at an
  unused address, so the lists of the group are not touched, and the loop on the heap
  makes the steps of the loop on values: one returns what the other returns, and neither
  returns when the other does not. A call that returns leaves every object that was there
  before it as it was, and a second call returns the same result.
\<close>

lemma read_group_store: "read_group (fst (store_group g)) (snd (store_group g)) = g"
  by (simp add: read_group_def store_group_def)

lemma read_group_write:
  assumes "a \<noteq> obj_participants r" "a \<noteq> obj_expenses r"
  shows "read_group (h\<lparr>objs := (objs h)(a \<mapsto> x)\<rparr>) r = read_group h r"
  using assms by (simp add: read_group_def)

lemma read_balances_write:
  "read_balances (h\<lparr>objs := (objs h)(a \<mapsto> Balances bs)\<rparr>) a = bs"
  by (simp add: read_balances_def)

lemma settle_loop_heap_frame:
  assumes "settle_loop_heap h r ps a acc = Some y"
  shows "fresh (snd y) = fresh h \<and> (\<forall>b. b \<noteq> a \<longrightarrow> objs (snd y) b = objs h b)"
proof (rule settle_loop_heap.raw_induct
    [where P = "\<lambda>h r ps a acc y. fresh (snd y) = fresh h
                  \<and> (\<forall>b. b \<noteq> a \<longrightarrow> objs (snd y) b = objs h b)", OF _ assms])
  fix f h r ps a acc y
  assume IH: "\<And>h r ps a acc y. f h r ps a acc = Some y
      \<Longrightarrow> fresh (snd y) = fresh h \<and> (\<forall>b. b \<noteq> a \<longrightarrow> objs (snd y) b = objs h b)"
    and body: "(case settle_step (read_group h r) ps (read_balances h a) of
        Inl e \<Rightarrow> Some (Inl e, h)
      | Inr None \<Rightarrow> Some (Inr acc, h)
      | Inr (Some (s, balances')) \<Rightarrow>
          f (h\<lparr>objs := (objs h)(a \<mapsto> Balances balances')\<rparr>) r ps a (acc @ [s])) = Some y"
  show "fresh (snd y) = fresh h \<and> (\<forall>b. b \<noteq> a \<longrightarrow> objs (snd y) b = objs h b)"
  proof (cases "settle_step (read_group h r) ps (read_balances h a)")
    case (Inl e)
    with body show ?thesis by auto
  next
    case (Inr o1)
    show ?thesis
    proof (cases o1)
      case None
      with Inr body show ?thesis by auto
    next
      case (Some sb)
      obtain s bs' where sb: "sb = (s, bs')" by (cases sb)
      from body Inr Some sb
      have "f (h\<lparr>objs := (objs h)(a \<mapsto> Balances bs')\<rparr>) r ps a (acc @ [s]) = Some y" by simp
      from IH [OF this] show ?thesis by simp
    qed
  qed
qed

lemma settle_loop_heap_pure:
  assumes run: "settle_loop_heap h r ps a acc = Some y"
    and a: "a \<noteq> obj_participants r" "a \<noteq> obj_expenses r"
  shows "settle_loop (read_group h r) ps (read_balances h a) acc = Some (fst y)"
proof -
  have "a \<noteq> obj_participants r \<longrightarrow> a \<noteq> obj_expenses r \<longrightarrow>
      settle_loop (read_group h r) ps (read_balances h a) acc = Some (fst y)"
  proof (rule settle_loop_heap.raw_induct
    [where P = "\<lambda>h r ps a acc y. a \<noteq> obj_participants r \<longrightarrow> a \<noteq> obj_expenses r \<longrightarrow>
        settle_loop (read_group h r) ps (read_balances h a) acc = Some (fst y)", OF _ run])
    fix f h r ps a acc y
    assume IH: "\<And>h r ps a acc y. f h r ps a acc = Some y
        \<Longrightarrow> a \<noteq> obj_participants r \<longrightarrow> a \<noteq> obj_expenses r \<longrightarrow>
          settle_loop (read_group h r) ps (read_balances h a) acc = Some (fst y)"
      and body: "(case settle_step (read_group h r) ps (read_balances h a) of
          Inl e \<Rightarrow> Some (Inl e, h)
        | Inr None \<Rightarrow> Some (Inr acc, h)
        | Inr (Some (s, balances')) \<Rightarrow>
            f (h\<lparr>objs := (objs h)(a \<mapsto> Balances balances')\<rparr>) r ps a (acc @ [s])) = Some y"
    show "a \<noteq> obj_participants r \<longrightarrow> a \<noteq> obj_expenses r \<longrightarrow>
        settle_loop (read_group h r) ps (read_balances h a) acc = Some (fst y)"
    proof (intro impI)
      assume a1: "a \<noteq> obj_participants r" and a2: "a \<noteq> obj_expenses r"
      show "settle_loop (read_group h r) ps (read_balances h a) acc = Some (fst y)"
      proof (cases "settle_step (read_group h r) ps (read_balances h a)")
        case (Inl e)
        with body show ?thesis by (subst settle_loop.simps) auto
      next
        case (Inr o1)
        show ?thesis
        proof (cases o1)
          case None
          with Inr body show ?thesis by (subst settle_loop.simps) auto
        next
          case (Some sb)
          obtain s bs' where sb: "sb = (s, bs')" by (cases sb)
          let ?h = "h\<lparr>objs := (objs h)(a \<mapsto> Balances bs')\<rparr>"
          from body Inr Some sb have "f ?h r ps a (acc @ [s]) = Some y" by simp
          from IH [OF this] a1 a2
          have "settle_loop (read_group ?h r) ps (read_balances ?h a) (acc @ [s]) = Some (fst y)"
            by blast
          then have "settle_loop (read_group h r) ps bs' (acc @ [s]) = Some (fst y)"
            using a1 a2 by (simp add: read_group_write read_balances_write)
          then show ?thesis using Inr Some sb by (subst settle_loop.simps) simp
        qed
      qed
    qed
  qed
  with a show ?thesis by blast
qed

lemma settle_loop_pure_heap:
  assumes run: "settle_loop g ps bs acc = Some res"
    and g: "read_group h r = g" and b: "read_balances h a = bs"
    and a: "a \<noteq> obj_participants r" "a \<noteq> obj_expenses r"
  shows "\<exists>h'. settle_loop_heap h r ps a acc = Some (res, h')"
proof -
  have "\<forall>h. read_group h r = g \<longrightarrow> read_balances h a = bs \<longrightarrow>
      (\<exists>h'. settle_loop_heap h r ps a acc = Some (res, h'))"
  proof (rule settle_loop.raw_induct
    [where P = "\<lambda>g ps bs acc res. \<forall>h. read_group h r = g \<longrightarrow> read_balances h a = bs \<longrightarrow>
      (\<exists>h'. settle_loop_heap h r ps a acc = Some (res, h'))", OF _ run])
    fix f g ps bs acc res
    assume IH: "\<And>g ps bs acc res. f g ps bs acc = Some res
        \<Longrightarrow> \<forall>h. read_group h r = g \<longrightarrow> read_balances h a = bs \<longrightarrow>
              (\<exists>h'. settle_loop_heap h r ps a acc = Some (res, h'))"
      and body: "(case settle_step g ps bs of
          Inl e \<Rightarrow> Some (Inl e)
        | Inr None \<Rightarrow> Some (Inr acc)
        | Inr (Some (s, balances')) \<Rightarrow> f g ps balances' (acc @ [s])) = Some res"
    show "\<forall>h. read_group h r = g \<longrightarrow> read_balances h a = bs \<longrightarrow>
              (\<exists>h'. settle_loop_heap h r ps a acc = Some (res, h'))"
    proof (intro allI impI)
      fix h
      assume hg: "read_group h r = g" and hb: "read_balances h a = bs"
      show "\<exists>h'. settle_loop_heap h r ps a acc = Some (res, h')"
      proof (cases "settle_step g ps bs")
        case (Inl e)
        with body hg hb show ?thesis by (subst settle_loop_heap.simps) auto
      next
        case (Inr o1)
        show ?thesis
        proof (cases o1)
          case None
          with Inr body hg hb show ?thesis by (subst settle_loop_heap.simps) auto
        next
          case (Some sb)
          obtain s bs' where sb: "sb = (s, bs')" by (cases sb)
          let ?h = "h\<lparr>objs := (objs h)(a \<mapsto> Balances bs')\<rparr>"
          from body Inr Some sb have "f g ps bs' (acc @ [s]) = Some res" by simp
          from IH [OF this]
          have "read_group ?h r = g \<longrightarrow> read_balances ?h a = bs' \<longrightarrow>
              (\<exists>h'. settle_loop_heap ?h r ps a (acc @ [s]) = Some (res, h'))" by blast
          then have "\<exists>h'. settle_loop_heap ?h r ps a (acc @ [s]) = Some (res, h')"
            using a hg by (simp add: read_group_write read_balances_write)
          then show ?thesis using Inr Some sb hg hb by (subst settle_loop_heap.simps) simp
        qed
      qed
    qed
  qed
  with g b show ?thesis by blast
qed

lemma calculate_heap_pure:
  assumes run: "calculate_optimal_settlements_heap h r = Some (res, h')"
    and wf: "obj_participants r < fresh h" "obj_expenses r < fresh h"
  shows "calculate_optimal_settlements (read_group h r) = Some (res, read_group h r)
         \<and> read_group h' r = read_group h r
         \<and> fresh h \<le> fresh h'
         \<and> (\<forall>b < fresh h. objs h' b = objs h b)"
proof (cases "get_balances (read_group h r)")
  case (Inl e)
  with run show ?thesis
    by (auto simp: calculate_optimal_settlements_heap_def calculate_optimal_settlements_def)
next
  case (Inr rows)
  show ?thesis
  proof (cases "rows = []")
    case True
    with Inr run show ?thesis
      by (auto simp: calculate_optimal_settlements_heap_def calculate_optimal_settlements_def)
  next
    case False
    let ?a = "fresh h"
    let ?h = "h\<lparr>objs := (objs h)(?a \<mapsto> Balances (map balance rows)), fresh := Suc ?a\<rparr>"
    let ?ps = "map row_participant_id rows"
    have a: "?a \<noteq> obj_participants r" "?a \<noteq> obj_expenses r" using wf by simp_all
    have loop: "settle_loop_heap ?h r ?ps ?a [] = Some (res, h')"
      using run Inr False by (simp add: calculate_optimal_settlements_heap_def Let_def)
    have g: "read_group ?h r = read_group h r" using a by (simp add: read_group_def)
    have b: "read_balances ?h ?a = map balance rows" by (simp add: read_balances_def)
    from settle_loop_heap_pure [OF loop a]
    have pure: "settle_loop (read_group h r) ?ps (map balance rows) [] = Some res"
      unfolding g b by simp
    from settle_loop_heap_frame [OF loop]
    have fr: "fresh h' = Suc ?a" and same: "\<forall>b. b \<noteq> ?a \<longrightarrow> objs h' b = objs ?h b"
      by simp_all
    have keep: "\<forall>b < fresh h. objs h' b = objs h b" using same by simp
    have "read_group h' r = read_group h r"
      using keep wf by (simp add: read_group_def)
    moreover have "calculate_optimal_settlements (read_group h r) = Some (res, read_group h r)"
      using Inr False pure by (simp add: calculate_optimal_settlements_def)
    ultimately show ?thesis using fr keep by simp
  qed
qed

lemma calculate_pure_heap:
  assumes run: "calculate_optimal_settlements (read_group h r) = Some (res, g')"
    and wf: "obj_participants r < fresh h" "obj_expenses r < fresh h"
  shows "\<exists>h'. calculate_optimal_settlements_heap h r = Some (res, h')"
proof (cases "get_balances (read_group h r)")
  case (Inl e)
  with run show ?thesis
    by (auto simp: calculate_optimal_settlements_heap_def calculate_optimal_settlements_def)
next
  case (Inr rows)
  show ?thesis
  proof (cases "rows = []")
    case True
    with Inr run show ?thesis
      by (auto simp: calculate_optimal_settlements_heap_def calculate_optimal_settlements_def)
  next
    case False
    let ?a = "fresh h"
    let ?h = "h\<lparr>objs := (objs h)(?a \<mapsto> Balances (map balance rows)), fresh := Suc ?a\<rparr>"
    let ?ps = "map row_participant_id rows"
    have a: "?a \<noteq> obj_participants r" "?a \<noteq> obj_expenses r" using wf by simp_all
    have g: "read_group ?h r = read_group h r" using a by (simp add: read_group_def)
    have b: "read_balances ?h ?a = map balance rows" by (simp add: read_balances_def)
    have pure: "settle_loop (read_group h r) ?ps (map balance rows) [] = Some res"
      using run Inr False by (auto simp: calculate_optimal_settlements_def)
    from settle_loop_pure_heap [OF pure g b a]
    show ?thesis using Inr False by (simp add: calculate_optimal_settlements_heap_def Let_def)
  qed
qed

lemma planning_repeatable_heap:
  assumes run: "calculate_optimal_settlements_heap h r = Some (first, h1)"
    and wf: "obj_participants r < fresh h" "obj_expenses r < fresh h"
  shows "read_group h1 r = read_group h r
         \<and> (\<forall>b < fresh h. objs h1 b = objs h b)
         \<and> (\<exists>h2. calculate_optimal_settlements_heap h1 r = Some (first, h2)
                \<and> read_group h2 r = read_group h r
                \<and> (\<forall>b < fresh h. objs h2 b = objs h b))"
proof -
  from calculate_heap_pure [OF run wf]
  have pure: "calculate_optimal_settlements (read_group h r) = Some (first, read_group h r)"
    and g1: "read_group h1 r = read_group h r" and f1: "fresh h \<le> fresh h1"
    and k1: "\<forall>b < fresh h. objs h1 b = objs h b"
    by blast+
  have wf1: "obj_participants r < fresh h1" "obj_expenses r < fresh h1" using wf f1 by simp_all
  have "calculate_optimal_settlements (read_group h1 r) = Some (first, read_group h r)"
    using pure g1 by simp
  from calculate_pure_heap [OF this wf1]
  obtain h2 where run2: "calculate_optimal_settlements_heap h1 r = Some (first, h2)" ..
  from calculate_heap_pure [OF run2 wf1]
  have g2: "read_group h2 r = read_group h1 r" and k2: "\<forall>b < fresh h1. objs h2 b = objs h1 b"
    by blast+
  have "\<forall>b < fresh h. objs h2 b = objs h b" using k1 k2 f1 by simp
  with run2 g1 g2 k1 show ?thesis by simp
qed

lemma planning_returns_heap:
  assumes rows: "get_balances (read_group h r) = Inr rows" and ne: "rows \<noteq> []"
    and small: "\<bar>sum_list (map balance rows)\<bar> \<le> 1 / 100"
    and lone: "\<not> (length rows = 1 \<and> sum_list (map balance rows) = 1 / 100)"
    and wf: "obj_participants r < fresh h" "obj_expenses r < fresh h"
  shows "\<exists>ss h1. calculate_optimal_settlements_heap h r = Some (Inr ss, h1)"
proof -
  from settlements_within_tolerance [OF rows ne small lone]
  obtain ss where "calculate_optimal_settlements (read_group h r) = Some (Inr ss, read_group h r)"
    by blast
  from calculate_pure_heap [OF this wf] show ?thesis by blast
qed

lemma calculate_heap_never:
  assumes "calculate_optimal_settlements (read_group h r) = None"
    and wf: "obj_participants r < fresh h" "obj_expenses r < fresh h"
  shows "calculate_optimal_settlements_heap h r = None"
proof (rule ccontr)
  assume "calculate_optimal_settlements_heap h r \<noteq> None"
  then obtain res h' where "calculate_optimal_settlements_heap h r = Some (res, h')" by auto
  from calculate_heap_pure [OF this wf] assms(1) show False by simp
qed

lemma trip_group_heap_twice:
  "\<exists>h1 h2. calculate_optimal_settlements_heap (fst (store_group trip_group)) (snd (store_group trip_group))
       = Some (Inr [\<lparr>from_participant = ''p3'', to_participant = ''p1'',
                    settlement_amount = 40, settlement_currency = ''BGN''\<rparr>,
                  \<lparr>from_participant = ''p2'', to_participant = ''p1'',
                    settlement_amount = 10, settlement_currency = ''BGN''\<rparr>], h1)
     \<and> read_group h1 (snd (store_group trip_group)) = trip_group
     \<and> calculate_optimal_settlements_heap h1 (snd (store_group trip_group))
       = Some (Inr [\<lparr>from_participant = ''p3'', to_participant = ''p1'',
                    settlement_amount = 40, settlement_currency = ''BGN''\<rparr>,
                  \<lparr>from_participant = ''p2'', to_participant = ''p1'',
                    settlement_amount = 10, settlement_currency = ''BGN''\<rparr>], h2)
     \<and> read_group h2 (snd (store_group trip_group)) = trip_group"
proof -
  let ?h = "fst (store_group trip_group)" and ?r = "snd (store_group trip_group)"
  let ?ss = "[\<lparr>from_participant = ''p3'', to_participant = ''p1'',
                    settlement_amount = 40, settlement_currency = ''BGN''\<rparr>,
                  \<lparr>from_participant = ''p2'', to_participant = ''p1'',
                    settlement_amount = 10, settlement_currency = ''BGN''\<rparr>]"
  have wf: "obj_participants ?r < fresh ?h" "obj_expenses ?r < fresh ?h"
    by (simp_all add: store_group_def)
  have g: "read_group ?h ?r = trip_group" by (rule read_group_store)
  have "calculate_optimal_settlements (read_group ?h ?r) = Some (Inr ?ss, trip_group)"
    unfolding g by (rule trip_group_settlements)
  from calculate_pure_heap [OF this wf]
  obtain h1 where run: "calculate_optimal_settlements_heap ?h ?r = Some (Inr ?ss, h1)" ..
  from planning_repeatable_heap [OF run wf] g run show ?thesis by auto
qed

section \<open>C1: the equal split\<close>




section \<open>C2: conservation of the balances\<close>

text \<open>
  C2 (as amended). In a group whose participants have distinct ids, whose expenses refer
  to ids of the group only and whose totals and split amounts are whole numbers of cents,
  \<open>get_balances\<close> returns one balance per participant and the balances sum to the sum
  over the expenses of \<open>total_amount\<close> less the split amounts. So they sum to zero when
  the splits of every expense sum to its total.
\<close>

theorem balances_sum_to_drift:
  assumes d: "distinct (ids_of g)"
    and k: "\<forall>e \<in> set (expenses g). refs_known (ids_of g) e"
    and c: "\<forall>e \<in> set (expenses g). np_round2 (total_amount e) = total_amount e
              \<and> (\<forall>s \<in> set (splits e). np_round2 (amount s) = amount s)"
  shows "\<exists>rows. get_balances g = Inr rows
           \<and> map row_participant_id rows = ids_of g
           \<and> sum_list (map balance rows)
               = sum_list (map (\<lambda>e. total_amount e - sum_list (map amount (splits e)))
                            (expenses g))
           \<and> ((\<forall>e \<in> set (expenses g). sum_list (map amount (splits e)) = total_amount e)
                \<longrightarrow> sum_list (map balance rows) = 0)"
proof -
  have g: "get_balances g = Inr (balance_rows g)" using k by (rule get_balances_known)
  have i: "map row_participant_id (balance_rows g) = ids_of g"
    by (simp add: balance_rows_def comp_def)
  note s = sum_balance_rows [OF d k c]
  have "sum_list (map balance (balance_rows g)) = 0"
    if "\<forall>e \<in> set (expenses g). sum_list (map amount (splits e)) = total_amount e"
  proof -
    have "map (\<lambda>e. total_amount e - sum_list (map amount (splits e))) (expenses g)
        = map (\<lambda>e. 0) (expenses g)"
      using that by (intro map_cong) auto
    then have "sum_list (map (\<lambda>e. total_amount e - sum_list (map amount (splits e)))
        (expenses g)) = sum_list (map (\<lambda>e. 0 :: rat) (expenses g))"
      by (rule arg_cong)
    then show ?thesis unfolding s by simp
  qed
  with g i s show ?thesis by blast
qed

theorem balances_sum_to_drift_witness:
  "distinct (ids_of trip_group)
   \<and> list_all (refs_known (ids_of trip_group)) (expenses trip_group)
   \<and> (\<exists>rows. get_balances trip_group = Inr rows
         \<and> map row_participant_id rows = [''p1'', ''p2'', ''p3'']
         \<and> sum_list (map balance rows) = 0)"
proof -
  have d: "distinct (ids_of trip_group)" by code_simp
  have k: "list_all (refs_known (ids_of trip_group)) (expenses trip_group)" by code_simp
  then have k': "\<forall>e \<in> set (expenses trip_group). refs_known (ids_of trip_group) e"
    by (simp add: list_all_iff)
  have "list_all (\<lambda>e. np_round2 (total_amount e) = total_amount e
              \<and> list_all (\<lambda>s. np_round2 (amount s) = amount s) (splits e))
          (expenses trip_group)"
    by code_simp
  then have c: "\<forall>e \<in> set (expenses trip_group). np_round2 (total_amount e) = total_amount e
              \<and> (\<forall>s \<in> set (splits e). np_round2 (amount s) = amount s)"
    by (simp add: list_all_iff)
  have "list_all (\<lambda>e. sum_list (map amount (splits e)) = total_amount e) (expenses trip_group)"
    by code_simp
  then have b: "\<forall>e \<in> set (expenses trip_group). sum_list (map amount (splits e)) = total_amount e"
    by (simp add: list_all_iff)
  have i: "ids_of trip_group = [''p1'', ''p2'', ''p3'']" by code_simp
  from balances_sum_to_drift [OF d k' c] b i d k show ?thesis by metis
qed

text \<open>
  Percentage splits are not corrected for rounding: 33.3, 33.3 and 33.4 percent of 1.10
  are 0.37 each, one cent too much in all, and after two such expenses the balances sum
  to -0.02.
\<close>

theorem balance_conservation_counterexample:
  "map (\<lambda>e. map amount (splits e)) (expenses drift_group)
      = [[37 / 100, 37 / 100, 37 / 100], [37 / 100, 37 / 100, 37 / 100]]
   \<and> get_balances drift_group
      = Inr [\<lparr>row_participant_id = ''p1'', row_name = ''Ivan'', balance = 146 / 100\<rparr>,
             \<lparr>row_participant_id = ''p2'', row_name = ''Maria'', balance = - 74 / 100\<rparr>,
             \<lparr>row_participant_id = ''p3'', row_name = ''Georgi'', balance = - 74 / 100\<rparr>]
   \<and> \<not> \<bar>146 / 100 + (- 74 / 100) + (- 74 / 100)\<bar> \<le> (1 / 100 :: rat)"
  by code_simp

section \<open>C3: the settlements clear the balances\<close>

text \<open>
  C3. The claim is that for every balance table whose sum is within 0.01 of zero the
  settlements of \<open>calculate_optimal_settlements\<close>, once applied, leave every balance
  within 0.01 of zero. The loop is written to do so, and \<open>settlements_within_tolerance\<close>
  above shows that it does on every table of at least two participants. It misses one
  table: a single participant whose balance is 0.01. The group below has one participant,
  Ivan, who pays 1000 and is charged 99.999 percent of it; the percentage check accepts
  the call, the table of \<open>get_balances\<close> is the one balance 0.01, whose sum is within 0.01
  of zero, and a step of the loop pairs Ivan with himself: it records a payment of 0.01
  from him to him and leaves the balance at 0.01. So the loop repeats the same step
  forever: \<open>calculate_optimal_settlements\<close> does not return, and no list of settlements is
  ever emitted.
\<close>

theorem lone_cent_group_never_settles:
  "fst (add_expense_percentage
          \<lparr>group_name = ''Solo'',
             participants = [\<lparr>name = ''Ivan'', pid = ''p1'', email = None\<rparr>],
             expenses = [], base_currency = ''BGN''\<rparr>
          ''Rent'' 1000 ''p1'' [(''p1'', 99999 / 1000)] ''BGN'' None)
     = Inr \<lparr>description = ''Rent'', total_amount = 1000, paid_by = ''p1'',
              currency = ''BGN'', split_method = PERCENTAGE,
              splits = [\<lparr>participant_id = ''p1'', amount = 99999 / 100,
                           percentage = Some (99999 / 1000), shares = None\<rparr>],
              is_recurring = False, category = None\<rparr>
   \<and> get_balances solo_group
     = Inr [\<lparr>row_participant_id = ''p1'', row_name = ''Ivan'', balance = 1 / 100\<rparr>]
   \<and> \<bar>sum_list [1 / 100 :: rat]\<bar> \<le> 1 / 100
   \<and> settle_step solo_group [''p1''] [1 / 100]
     = Inr (Some (\<lparr>from_participant = ''p1'', to_participant = ''p1'',
                    settlement_amount = 1 / 100, settlement_currency = ''BGN''\<rparr>,
                  [1 / 100]))
   \<and> calculate_optimal_settlements solo_group = None"
proof -
  have a: "fst (add_expense_percentage
          \<lparr>group_name = ''Solo'',
             participants = [\<lparr>name = ''Ivan'', pid = ''p1'', email = None\<rparr>],
             expenses = [], base_currency = ''BGN''\<rparr>
          ''Rent'' 1000 ''p1'' [(''p1'', 99999 / 1000)] ''BGN'' None)
     = Inr \<lparr>description = ''Rent'', total_amount = 1000, paid_by = ''p1'',
              currency = ''BGN'', split_method = PERCENTAGE,
              splits = [\<lparr>participant_id = ''p1'', amount = 99999 / 100,
                           percentage = Some (99999 / 1000), shares = None\<rparr>],
              is_recurring = False, category = None\<rparr>"
    by code_simp
  have b: "base_currency solo_group = ''BGN''" by code_simp
  show ?thesis
    using a by (simp add: solo_group_balances single_cent_step b solo_group_never_settles)
qed

section \<open>C4: the loop ends, and how many settlements it emits\<close>




section \<open>C5: validation of percentages and custom amounts\<close>

text \<open>
  C5. \<open>add_expense_percentage\<close> raises (a ValueError, the validation error of the code)
  exactly when the percentages do not sum to 100 within the tolerance of \<open>np.isclose\<close>,
  which is 1e-8 + 1e-5 * 100; \<open>add_expense_custom\<close> raises exactly when the amounts do not
  sum to the total within 1e-8 + 1e-5 * |total|. A call that raises leaves the group as it
  was: no expense is appended. A call that returns has appended the expense it returns.
  Percentages summing to 99.99 or to 100.01 raise, 100.00 succeeds.
\<close>

theorem validation_errors:
  "((\<exists>err. fst (add_expense_percentage g descr t paid percentages cur cat) = Inl err)
      \<longleftrightarrow> 100001 / 100000000 < \<bar>sum_list (map snd percentages) - 100\<bar>)
   \<and> ((\<exists>err. fst (add_expense_custom g descr t paid custom_amounts cur cat) = Inl err)
      \<longleftrightarrow> 1 / 100000000 + \<bar>t\<bar> / 100000 < \<bar>sum_list (map snd custom_amounts) - t\<bar>)
   \<and> (\<forall>err. fst (add_expense_percentage g descr t paid percentages cur cat) = Inl err
        \<longrightarrow> err = ValueError
            \<and> snd (add_expense_percentage g descr t paid percentages cur cat) = g)
   \<and> (\<forall>err. fst (add_expense_custom g descr t paid custom_amounts cur cat) = Inl err
        \<longrightarrow> err = ValueError
            \<and> snd (add_expense_custom g descr t paid custom_amounts cur cat) = g)
   \<and> (\<forall>e. fst (add_expense_percentage g descr t paid percentages cur cat) = Inr e
        \<longrightarrow> snd (add_expense_percentage g descr t paid percentages cur cat)
              = g\<lparr>expenses := expenses g @ [e]\<rparr>)
   \<and> (\<forall>e. fst (add_expense_custom g descr t paid custom_amounts cur cat) = Inr e
        \<longrightarrow> snd (add_expense_custom g descr t paid custom_amounts cur cat)
              = g\<lparr>expenses := expenses g @ [e]\<rparr>)"
  by (auto simp: add_expense_percentage_def add_expense_custom_def np_isclose_def Let_def)

theorem validation_errors_witness:
  "fst (add_expense_percentage demo_group ''Hotel'' 100 ''p1''
          [(''p1'', 50), (''p2'', 4999 / 100)] ''BGN'' None) = Inl ValueError
   \<and> snd (add_expense_percentage demo_group ''Hotel'' 100 ''p1''
          [(''p1'', 50), (''p2'', 4999 / 100)] ''BGN'' None) = demo_group
   \<and> fst (add_expense_percentage demo_group ''Hotel'' 100 ''p1''
          [(''p1'', 50), (''p2'', 5001 / 100)] ''BGN'' None) = Inl ValueError
   \<and> (\<exists>e. fst (add_expense_percentage demo_group ''Hotel'' 100 ''p1''
          [(''p1'', 50), (''p2'', 30), (''p3'', 20)] ''BGN'' None) = Inr e)
   \<and> fst (add_expense_custom demo_group ''Gift'' 90 ''p1''
          [(''p1'', 50), (''p2'', 30), (''p3'', 20)] ''BGN'' None) = Inl ValueError
   \<and> snd (add_expense_custom demo_group ''Gift'' 90 ''p1''
          [(''p1'', 50), (''p2'', 30), (''p3'', 20)] ''BGN'' None) = demo_group"
proof -
  have a: "100001 / 100000000 < \<bar>sum_list (map snd [(''p1'', 50), (''p2'', 4999 / 100 :: rat)]) - 100\<bar>"
    by simp
  have b: "100001 / 100000000 < \<bar>sum_list (map snd [(''p1'', 50), (''p2'', 5001 / 100 :: rat)]) - 100\<bar>"
    by simp
  have c: "\<not> 100001 / 100000000 < \<bar>sum_list (map snd [(''p1'', 50), (''p2'', 30), (''p3'', 20 :: rat)]) - 100\<bar>"
    by simp
  have d: "1 / 100000000 + \<bar>90\<bar> / 100000
      < \<bar>sum_list (map snd [(''p1'', 50), (''p2'', 30), (''p3'', 20 :: rat)]) - 90\<bar>"
    by simp
  note v1 = validation_errors [of demo_group "''Hotel''" 100 "''p1''"
      "[(''p1'', 50), (''p2'', 4999 / 100)]" "''BGN''" None "[(''p1'', 50), (''p2'', 30), (''p3'', 20)]"]
  note v2 = validation_errors [of demo_group "''Hotel''" 100 "''p1''"
      "[(''p1'', 50), (''p2'', 5001 / 100)]" "''BGN''" None "[]"]
  note v3 = validation_errors [of demo_group "''Hotel''" 100 "''p1''"
      "[(''p1'', 50), (''p2'', 30), (''p3'', 20)]" "''BGN''" None "[]"]
  note v4 = validation_errors [of demo_group "''Gift''" 90 "''p1''"
      "[]" "''BGN''" None "[(''p1'', 50), (''p2'', 30), (''p3'', 20)]"]
  show ?thesis
    using a b c d v1 v2 v3 v4 by (metis sum.exhaust)
qed

section \<open>C6: the order of the expenses\<close>

text \<open>
  C6 (as amended). Let every amount of the expenses of a group (totals and split amounts)
  be a whole number of cents up to \<open>1e-9\<close>, with at most 10000 amounts in all, whose
  absolute values sum to at most \<open>1e9\<close>. Then permuting the expenses changes nothing in
  what \<open>get_balances\<close> gives, computed in float64 in the order of the expense sequence:
  the same error or the same balance for every participant.
\<close>

theorem get_balances_f64_permute:
  assumes "mset es = mset (expenses g)" and "cent_ledger (expenses g)"
  shows "get_balances_f64 (g\<lparr>expenses := es\<rparr>) = get_balances_f64 g"
proof -
  let ?c = "g\<lparr>expenses := map cents_expense (expenses g)\<rparr>"
  have l: "cent_ledger (expenses (g\<lparr>expenses := es\<rparr>))"
    using assms cent_ledger_mset [of es "expenses g"] by simp
  have m: "mset (map cents_expense es) = mset (expenses ?c)" using assms(1) by simp
  have "get_balances_f64 (g\<lparr>expenses := es\<rparr>)
      = map_sum id (map f64_row) (get_balances (?c\<lparr>expenses := map cents_expense es\<rparr>))"
    using get_balances_f64_cents [OF l] by simp
  also have "\<dots> = map_sum id (map f64_row) (get_balances ?c)"
    using get_balances_exact_permute [OF m] by simp
  also have "\<dots> = get_balances_f64 g"
    using get_balances_f64_cents [OF assms(2)] by simp
  finally show ?thesis .
qed

theorem get_balances_f64_permute_witness:
  "mset [loan ''p1'' ''p2'' (f64 (201 / 100)), loan ''p2'' ''p1'' (f64 (218 / 100)),
         loan ''p1'' ''p2'' (f64 (18 / 100))]
     = mset [loan ''p1'' ''p2'' (f64 (201 / 100)), loan ''p1'' ''p2'' (f64 (18 / 100)),
             loan ''p2'' ''p1'' (f64 (218 / 100))]
   \<and> cent_ledger [loan ''p1'' ''p2'' (f64 (201 / 100)), loan ''p1'' ''p2'' (f64 (18 / 100)),
                   loan ''p2'' ''p1'' (f64 (218 / 100))]
   \<and> get_balances_f64 (pair_group\<lparr>expenses :=
         [loan ''p1'' ''p2'' (f64 (201 / 100)), loan ''p2'' ''p1'' (f64 (218 / 100)),
          loan ''p1'' ''p2'' (f64 (18 / 100))]\<rparr>)
     = Inr [\<lparr>row_participant_id = ''p1'', row_name = ''Ivan'', balance = f64 (1 / 100)\<rparr>,
            \<lparr>row_participant_id = ''p2'', row_name = ''Maria'', balance = f64 (- (1 / 100))\<rparr>]"
proof -
  let ?g = "pair_group\<lparr>expenses :=
       [loan ''p1'' ''p2'' (f64 (201 / 100)), loan ''p1'' ''p2'' (f64 (18 / 100)),
        loan ''p2'' ''p1'' (f64 (218 / 100))]\<rparr>"
  let ?es = "[loan ''p1'' ''p2'' (f64 (201 / 100)), loan ''p2'' ''p1'' (f64 (218 / 100)),
         loan ''p1'' ''p2'' (f64 (18 / 100))]"
  have m: "mset ?es = mset (expenses ?g)" by (simp add: add_mset_commute)
  have c: "cent_ledger (expenses ?g)" using whole_cent_loans by simp
  have e: "expenses ?g = [loan ''p1'' ''p2'' (f64 (201 / 100)), loan ''p1'' ''p2'' (f64 (18 / 100)),
        loan ''p2'' ''p1'' (f64 (218 / 100))]"
    by simp
  have u: "?g\<lparr>expenses := ?es\<rparr> = pair_group\<lparr>expenses := ?es\<rparr>" by simp
  from get_balances_f64_permute [OF m c]
  have "get_balances_f64 (pair_group\<lparr>expenses := ?es\<rparr>) = get_balances_f64 ?g"
    unfolding u .
  then have r: "get_balances_f64 (pair_group\<lparr>expenses := ?es\<rparr>)
     = Inr [\<lparr>row_participant_id = ''p1'', row_name = ''Ivan'', balance = f64 (1 / 100)\<rparr>,
            \<lparr>row_participant_id = ''p2'', row_name = ''Maria'', balance = f64 (- (1 / 100))\<rparr>]"
    unfolding whole_cent_loans_balances .
  from m c r show ?thesis unfolding e by (intro conjI)
qed

text \<open>
  Without whole cents the order matters. Ivan pays 2.015 for Maria, Ivan pays 0.18 for
  Maria, Maria pays 2.18 for Ivan: \<open>add_expense_custom\<close> accepts each of them, the float
  sum for Ivan is 0.015000000000000124 in this order and 0.014999999999999958 with the last
  two expenses exchanged, and \<open>get_balances\<close> gives 0.02 and -0.02 in the first order, 0.01
  and -0.01 in the second.
\<close>

theorem get_balances_order_counterexample:
  "add_expense_custom pair_group ''Loan'' (f64 (2015 / 1000)) ''p1''
       [(''p2'', f64 (2015 / 1000))] ''BGN'' None
     = (Inr (loan ''p1'' ''p2'' (f64 (2015 / 1000))),
        pair_group\<lparr>expenses := [loan ''p1'' ''p2'' (f64 (2015 / 1000))]\<rparr>)
   \<and> mset [loan ''p1'' ''p2'' (f64 (2015 / 1000)), loan ''p2'' ''p1'' (f64 (218 / 100)),
           loan ''p1'' ''p2'' (f64 (18 / 100))]
     = mset [loan ''p1'' ''p2'' (f64 (2015 / 1000)), loan ''p1'' ''p2'' (f64 (18 / 100)),
             loan ''p2'' ''p1'' (f64 (218 / 100))]
   \<and> get_balances_f64 (pair_group\<lparr>expenses :=
         [loan ''p1'' ''p2'' (f64 (2015 / 1000)), loan ''p1'' ''p2'' (f64 (18 / 100)),
          loan ''p2'' ''p1'' (f64 (218 / 100))]\<rparr>)
     = Inr [\<lparr>row_participant_id = ''p1'', row_name = ''Ivan'', balance = f64 (2 / 100)\<rparr>,
            \<lparr>row_participant_id = ''p2'', row_name = ''Maria'', balance = f64 (- (2 / 100))\<rparr>]
   \<and> get_balances_f64 (pair_group\<lparr>expenses :=
         [loan ''p1'' ''p2'' (f64 (2015 / 1000)), loan ''p2'' ''p1'' (f64 (218 / 100)),
          loan ''p1'' ''p2'' (f64 (18 / 100))]\<rparr>)
     = Inr [\<lparr>row_participant_id = ''p1'', row_name = ''Ivan'', balance = f64 (1 / 100)\<rparr>,
            \<lparr>row_participant_id = ''p2'', row_name = ''Maria'', balance = f64 (- (1 / 100))\<rparr>]
   \<and> f64 (2 / 100) \<noteq> f64 (1 / 100)"
proof -
  have a: "add_expense_custom pair_group ''Loan'' (f64 (2015 / 1000)) ''p1''
       [(''p2'', f64 (2015 / 1000))] ''BGN'' None
     = (Inr (loan ''p1'' ''p2'' (f64 (2015 / 1000))),
        pair_group\<lparr>expenses := [loan ''p1'' ''p2'' (f64 (2015 / 1000))]\<rparr>)"
    by code_simp
  have b: "get_balances_f64 (pair_group\<lparr>expenses :=
         [loan ''p1'' ''p2'' (f64 (2015 / 1000)), loan ''p1'' ''p2'' (f64 (18 / 100)),
          loan ''p2'' ''p1'' (f64 (218 / 100))]\<rparr>)
     = Inr [\<lparr>row_participant_id = ''p1'', row_name = ''Ivan'', balance = f64 (2 / 100)\<rparr>,
            \<lparr>row_participant_id = ''p2'', row_name = ''Maria'', balance = f64 (- (2 / 100))\<rparr>]"
    by code_simp
  have c: "get_balances_f64 (pair_group\<lparr>expenses :=
         [loan ''p1'' ''p2'' (f64 (2015 / 1000)), loan ''p2'' ''p1'' (f64 (218 / 100)),
          loan ''p1'' ''p2'' (f64 (18 / 100))]\<rparr>)
     = Inr [\<lparr>row_participant_id = ''p1'', row_name = ''Ivan'', balance = f64 (1 / 100)\<rparr>,
            \<lparr>row_participant_id = ''p2'', row_name = ''Maria'', balance = f64 (- (1 / 100))\<rparr>]"
    by code_simp
  have d: "f64 (2 / 100) \<noteq> f64 (1 / 100)" by code_simp
  have m: "mset [loan ''p1'' ''p2'' (f64 (2015 / 1000)), loan ''p2'' ''p1'' (f64 (218 / 100)),
           loan ''p1'' ''p2'' (f64 (18 / 100))]
     = mset [loan ''p1'' ''p2'' (f64 (2015 / 1000)), loan ''p1'' ''p2'' (f64 (18 / 100)),
             loan ''p2'' ''p1'' (f64 (218 / 100))]"
    by (simp add: add_mset_commute)
  from a m b c d show ?thesis by (intro conjI)
qed

section \<open>C7: planning twice\<close>

text \<open>
  C7. The claim is that, for every group, two calls of \<open>calculate_optimal_settlements\<close>
  with nothing changed in between give the same sequence of settlements and change neither
  the participants nor the expenses nor any balances kept. Wherever the first call returns
  this is so (\<open>planning_repeatable_heap\<close>, and \<open>planning_returns_heap\<close> for when it does).
  But the call does not return for every group. With one participant, Ivan, who paid 1000
  and is charged 99.999 percent of it, the table holds the one balance 0.01, the loop pays
  0.01 from Ivan to Ivan for ever, and the first call gives no sequence at all.
\<close>

theorem lone_cent_planning_never_returns:
  "store_group solo_group
     = (\<lparr>objs = (\<lambda>a. None)
              (0 \<mapsto> Participants [\<lparr>name = ''Ivan'', pid = ''p1'', email = None\<rparr>],
               1 \<mapsto> Expenses
                 [\<lparr>description = ''Rent'', total_amount = 1000, paid_by = ''p1'',
                    currency = ''BGN'', split_method = PERCENTAGE,
                    splits = [\<lparr>participant_id = ''p1'', amount = 99999 / 100,
                                 percentage = Some (99999 / 1000), shares = None\<rparr>],
                    is_recurring = False, category = None\<rparr>]),
          fresh = 2\<rparr>,
        \<lparr>obj_name = ''Solo'', obj_participants = 0, obj_expenses = 1,
           obj_base_currency = ''BGN''\<rparr>)
   \<and> calculate_optimal_settlements_heap (fst (store_group solo_group))
        (snd (store_group solo_group)) = None"
proof -
  let ?h = "fst (store_group solo_group)" and ?r = "snd (store_group solo_group)"
  have wf: "obj_participants ?r < fresh ?h" "obj_expenses ?r < fresh ?h"
    by (simp_all add: store_group_def)
  have "calculate_optimal_settlements (read_group ?h ?r) = None"
    unfolding read_group_store by (rule solo_group_never_settles)
  then have n: "calculate_optimal_settlements_heap ?h ?r = None" using wf
    by (rule calculate_heap_never)
  have p: "participants solo_group = [\<lparr>name = ''Ivan'', pid = ''p1'', email = None\<rparr>]"
    by code_simp
  have e: "expenses solo_group = [\<lparr>description = ''Rent'', total_amount = 1000, paid_by = ''p1'',
                    currency = ''BGN'', split_method = PERCENTAGE,
                    splits = [\<lparr>participant_id = ''p1'', amount = 99999 / 100,
                                 percentage = Some (99999 / 1000), shares = None\<rparr>],
                    is_recurring = False, category = None\<rparr>]"
    by code_simp
  have n': "group_name solo_group = ''Solo''" "base_currency solo_group = ''BGN''"
    by code_simp+
  have s: "store_group solo_group
     = (\<lparr>objs = (\<lambda>a. None)
              (0 \<mapsto> Participants [\<lparr>name = ''Ivan'', pid = ''p1'', email = None\<rparr>],
               1 \<mapsto> Expenses
                 [\<lparr>description = ''Rent'', total_amount = 1000, paid_by = ''p1'',
                    currency = ''BGN'', split_method = PERCENTAGE,
                    splits = [\<lparr>participant_id = ''p1'', amount = 99999 / 100,
                                 percentage = Some (99999 / 1000), shares = None\<rparr>],
                    is_recurring = False, category = None\<rparr>]),
          fresh = 2\<rparr>,
        \<lparr>obj_name = ''Solo'', obj_participants = 0, obj_expenses = 1,
           obj_base_currency = ''BGN''\<rparr>)"
    unfolding store_group_def p e n' ..
  from s n show ?thesis ..
qed

section \<open>C8: ids that the group does not have\<close>

text \<open>
  C8 (as amended). No allocator looks the ids of a call up in the group. A call whose
  \<open>paid_by\<close> or split participants are not ids of the group, and that passes the
  allocator's own checks (a participant list that is not empty, percentages or amounts
  that sum up, shares whose int64 sum is not 0), returns an expense with exactly those ids
  and appends it; the unknown id is noticed later, when \<open>get_balances\<close> raises KeyError.
\<close>

theorem allocators_accept_unknown_ids:
  assumes "paid \<notin> set (ids_of g) \<or> \<not> set ps \<subseteq> set (ids_of g)"
  shows "(ps \<noteq> [] \<longrightarrow>
            (\<exists>e. add_expense_equal g descr t paid (Some ps) cur cat
                    = (Inr e, g\<lparr>expenses := expenses g @ [e]\<rparr>)
               \<and> paid_by e = paid \<and> map participant_id (splits e) = ps
               \<and> get_balances (g\<lparr>expenses := expenses g @ [e]\<rparr>) = Inl KeyError))
       \<and> (map fst pcts = ps \<and> np_isclose (sum_list (map snd pcts)) 100 \<longrightarrow>
            (\<exists>e. add_expense_percentage g descr t paid pcts cur cat
                    = (Inr e, g\<lparr>expenses := expenses g @ [e]\<rparr>)
               \<and> paid_by e = paid \<and> map participant_id (splits e) = ps
               \<and> get_balances (g\<lparr>expenses := expenses g @ [e]\<rparr>) = Inl KeyError))
       \<and> (map fst shs = ps \<and> sum_list (map snd shs) \<noteq> 0 \<longrightarrow>
            (\<exists>e. add_expense_shares g descr t paid shs cur cat
                    = Finite (Inr e, g\<lparr>expenses := expenses g @ [e]\<rparr>)
               \<and> paid_by e = paid \<and> map participant_id (splits e) = ps
               \<and> get_balances (g\<lparr>expenses := expenses g @ [e]\<rparr>) = Inl KeyError))
       \<and> (map fst amts = ps \<and> np_isclose (sum_list (map snd amts)) t \<longrightarrow>
            (\<exists>e. add_expense_custom g descr t paid amts cur cat
                    = (Inr e, g\<lparr>expenses := expenses g @ [e]\<rparr>)
               \<and> paid_by e = paid \<and> map participant_id (splits e) = ps
               \<and> get_balances (g\<lparr>expenses := expenses g @ [e]\<rparr>) = Inl KeyError))"
proof (intro conjI impI)
  assume ne: "ps \<noteq> []"
  have c: "ps = (case Some ps of None \<Rightarrow> map pid (participants g) | Some l \<Rightarrow> l)" by simp
  from add_expense_equal_run [OF c ne, of descr t paid cur cat]
  obtain e where e: "add_expense_equal g descr t paid (Some ps) cur cat
                    = (Inr e, g\<lparr>expenses := expenses g @ [e]\<rparr>)"
      "paid_by e = paid" "map participant_id (splits e) = ps"
    by blast
  with assms have "get_balances (g\<lparr>expenses := expenses g @ [e]\<rparr>) = Inl KeyError"
    by (intro get_balances_dangling) simp
  with e show "\<exists>e. add_expense_equal g descr t paid (Some ps) cur cat
                    = (Inr e, g\<lparr>expenses := expenses g @ [e]\<rparr>)
               \<and> paid_by e = paid \<and> map participant_id (splits e) = ps
               \<and> get_balances (g\<lparr>expenses := expenses g @ [e]\<rparr>) = Inl KeyError"
    by blast
next
  assume a: "map fst pcts = ps \<and> np_isclose (sum_list (map snd pcts)) 100"
  let ?e = "\<lparr>description = descr, total_amount = t, paid_by = paid,
                         currency = cur, split_method = PERCENTAGE,
                         splits = map (\<lambda>(p, pct). \<lparr>participant_id = p,
                                          amount = np_round2 (t * (pct / 100)),
                                          percentage = Some pct, shares = None\<rparr>)
                                      pcts,
                         is_recurring = False, category = cat\<rparr>"
  have ids: "map participant_id (splits ?e) = ps"
    using a by (auto simp: comp_def case_prod_beta)
  have run: "add_expense_percentage g descr t paid pcts cur cat
                    = (Inr ?e, g\<lparr>expenses := expenses g @ [?e]\<rparr>)"
    using a by (simp add: add_expense_percentage_def Let_def)
  have "get_balances (g\<lparr>expenses := expenses g @ [?e]\<rparr>) = Inl KeyError"
    using assms ids by (intro get_balances_dangling) simp
  with run ids show "\<exists>e. add_expense_percentage g descr t paid pcts cur cat
                    = (Inr e, g\<lparr>expenses := expenses g @ [e]\<rparr>)
               \<and> paid_by e = paid \<and> map participant_id (splits e) = ps
               \<and> get_balances (g\<lparr>expenses := expenses g @ [e]\<rparr>) = Inl KeyError"
    by (intro exI [of _ ?e]) simp
next
  assume a: "map fst shs = ps \<and> sum_list (map snd shs) \<noteq> 0"
  let ?e = "\<lparr>description = descr, total_amount = t, paid_by = paid,
                       currency = cur, split_method = SHARES,
                       splits = map (\<lambda>(p, share_count). \<lparr>participant_id = p,
                                       amount = np_round2 (t * (of_int (sint share_count)
                                                  / of_int (sint (sum_list (map snd shs))))),
                                       percentage = None, shares = Some (sint share_count)\<rparr>)
                                    shs,
                       is_recurring = False, category = cat\<rparr>"
  have ids: "map participant_id (splits ?e) = ps"
    using a by (auto simp: comp_def case_prod_beta)
  have run: "add_expense_shares g descr t paid shs cur cat
                    = Finite (Inr ?e, g\<lparr>expenses := expenses g @ [?e]\<rparr>)"
    using a add_expense_shares_finite [of shs g descr t paid cur cat] by (simp add: Let_def)
  have "get_balances (g\<lparr>expenses := expenses g @ [?e]\<rparr>) = Inl KeyError"
    using assms ids by (intro get_balances_dangling) simp
  with run ids show "\<exists>e. add_expense_shares g descr t paid shs cur cat
                    = Finite (Inr e, g\<lparr>expenses := expenses g @ [e]\<rparr>)
               \<and> paid_by e = paid \<and> map participant_id (splits e) = ps
               \<and> get_balances (g\<lparr>expenses := expenses g @ [e]\<rparr>) = Inl KeyError"
    by (intro exI [of _ ?e]) simp
next
  assume a: "map fst amts = ps \<and> np_isclose (sum_list (map snd amts)) t"
  let ?e = "\<lparr>description = descr, total_amount = t, paid_by = paid,
                         currency = cur, split_method = CUSTOM,
                         splits = map (\<lambda>(p, amt). \<lparr>participant_id = p, amount = amt,
                                                      percentage = None, shares = None\<rparr>)
                                      amts,
                         is_recurring = False, category = cat\<rparr>"
  have ids: "map participant_id (splits ?e) = ps"
    using a by (auto simp: comp_def case_prod_beta)
  have run: "add_expense_custom g descr t paid amts cur cat
                    = (Inr ?e, g\<lparr>expenses := expenses g @ [?e]\<rparr>)"
    using a by (simp add: add_expense_custom_def Let_def)
  have "get_balances (g\<lparr>expenses := expenses g @ [?e]\<rparr>) = Inl KeyError"
    using assms ids by (intro get_balances_dangling) simp
  with run ids show "\<exists>e. add_expense_custom g descr t paid amts cur cat
                    = (Inr e, g\<lparr>expenses := expenses g @ [e]\<rparr>)
               \<and> paid_by e = paid \<and> map participant_id (splits e) = ps
               \<and> get_balances (g\<lparr>expenses := expenses g @ [e]\<rparr>) = Inl KeyError"
    by (intro exI [of _ ?e]) simp
qed

theorem allocators_accept_unknown_ids_witness:
  "''ghost'' \<notin> set (ids_of demo_group)
   \<and> (\<exists>e. add_expense_equal demo_group ''Taxi'' 30 ''ghost'' (Some [''p1'', ''nobody''])
              ''BGN'' None
            = (Inr e, demo_group\<lparr>expenses := expenses demo_group @ [e]\<rparr>)
          \<and> paid_by e = ''ghost'' \<and> map participant_id (splits e) = [''p1'', ''nobody'']
          \<and> get_balances (demo_group\<lparr>expenses := expenses demo_group @ [e]\<rparr>) = Inl KeyError)
   \<and> (\<exists>e. add_expense_custom demo_group ''Taxi'' 30 ''ghost''
              [(''p1'', 10), (''nobody'', 20)] ''BGN'' None
            = (Inr e, demo_group\<lparr>expenses := expenses demo_group @ [e]\<rparr>)
          \<and> paid_by e = ''ghost'' \<and> map participant_id (splits e) = [''p1'', ''nobody'']
          \<and> get_balances (demo_group\<lparr>expenses := expenses demo_group @ [e]\<rparr>) = Inl KeyError)"
proof -
  have u: "''ghost'' \<notin> set (ids_of demo_group)" by code_simp
  then have h: "''ghost'' \<notin> set (ids_of demo_group)
      \<or> \<not> set [''p1'', ''nobody''] \<subseteq> set (ids_of demo_group)" by simp
  have ne: "[''p1'', ''nobody''] \<noteq> []" by simp
  have c: "map fst [(''p1'', 10 :: rat), (''nobody'', 20)] = [''p1'', ''nobody'']
      \<and> np_isclose (sum_list (map snd [(''p1'', 10 :: rat), (''nobody'', 20)])) 30"
    by (simp add: np_isclose_def)
  from allocators_accept_unknown_ids [OF h, where descr = "''Taxi''" and t = 30
      and cur = "''BGN''" and cat = None and amts = "[(''p1'', 10), (''nobody'', 20)]"
      and pcts = "[]" and shs = "[]"]
  show ?thesis using u ne c by blast
qed

text \<open>
  An equal split paid by an id nobody has, shared by a participant and a second id nobody
  has: the call returns the expense and the group holds it.
\<close>

theorem allocator_unknown_id_counterexample:
  "get_participant_by_id demo_group ''ghost'' = None
   \<and> get_participant_by_id demo_group ''nobody'' = None
   \<and> ''ghost'' \<notin> set (ids_of demo_group) \<and> ''nobody'' \<notin> set (ids_of demo_group)
   \<and> add_expense_equal demo_group ''Taxi'' 30 ''ghost'' (Some [''p1'', ''nobody''])
        ''BGN'' None
      = (Inr \<lparr>description = ''Taxi'', total_amount = 30, paid_by = ''ghost'',
               currency = ''BGN'', split_method = EQUAL,
               splits = [\<lparr>participant_id = ''p1'', amount = 15,
                            percentage = None, shares = None\<rparr>,
                         \<lparr>participant_id = ''nobody'', amount = 15,
                            percentage = None, shares = None\<rparr>],
               is_recurring = False, category = None\<rparr>,
         demo_group\<lparr>expenses :=
           [\<lparr>description = ''Taxi'', total_amount = 30, paid_by = ''ghost'',
               currency = ''BGN'', split_method = EQUAL,
               splits = [\<lparr>participant_id = ''p1'', amount = 15,
                            percentage = None, shares = None\<rparr>,
                         \<lparr>participant_id = ''nobody'', amount = 15,
                            percentage = None, shares = None\<rparr>],
               is_recurring = False, category = None\<rparr>]\<rparr>)"
  by code_simp

section \<open>C9: get_balances raises KeyError on an unknown id\<close>

text \<open>
  C9. \<open>get_balances\<close> raises KeyError exactly when some expense of the group has a
  \<open>paid_by\<close>, or a split with a \<open>participant_id\<close>, that is not the id of a participant of
  the group; it returns a table of balances exactly when every id that the expenses refer
  to belongs to a participant.
\<close>

theorem get_balances_KeyError_iff:
  "(get_balances g = Inl KeyError \<longleftrightarrow>
      (\<exists>e \<in> set (expenses g).
         paid_by e \<notin> pid ` set (participants g)
         \<or> (\<exists>s \<in> set (splits e). participant_id s \<notin> pid ` set (participants g))))
   \<and> ((\<exists>rows. get_balances g = Inr rows) \<longleftrightarrow>
      (\<forall>e \<in> set (expenses g).
         paid_by e \<in> pid ` set (participants g)
         \<and> (\<forall>s \<in> set (splits e). participant_id s \<in> pid ` set (participants g))))"
proof (cases "\<forall>e \<in> set (expenses g). refs_known (ids_of g) e")
  case True
  then have "get_balances g = Inr (balance_rows g)" by (rule get_balances_known)
  moreover from True have "\<forall>e \<in> set (expenses g).
         paid_by e \<in> pid ` set (participants g)
         \<and> (\<forall>s \<in> set (splits e). participant_id s \<in> pid ` set (participants g))"
    by (simp add: refs_known_def list_all_iff)
  ultimately show ?thesis by auto
next
  case False
  then have "get_balances g = Inl KeyError" by (intro get_balances_unknown) blast
  moreover from False have "\<exists>e \<in> set (expenses g).
         paid_by e \<notin> pid ` set (participants g)
         \<or> (\<exists>s \<in> set (splits e). participant_id s \<notin> pid ` set (participants g))"
    by (auto simp: refs_known_def list_all_iff)
  ultimately show ?thesis by auto
qed

theorem get_balances_KeyError_iff_witness:
  "(\<exists>e \<in> set (expenses ghost_group).
         paid_by e \<notin> pid ` set (participants ghost_group)
         \<or> (\<exists>s \<in> set (splits e). participant_id s \<notin> pid ` set (participants ghost_group)))
   \<and> get_balances ghost_group = Inl KeyError
   \<and> list_all (refs_known (ids_of trip_group)) (expenses trip_group)
   \<and> (\<exists>rows. get_balances trip_group = Inr rows)"
proof -
  have bad: "\<exists>e \<in> set (expenses ghost_group).
         paid_by e \<notin> pid ` set (participants ghost_group)
         \<or> (\<exists>s \<in> set (splits e). participant_id s \<notin> pid ` set (participants ghost_group))"
    by code_simp
  have good: "list_all (refs_known (ids_of trip_group)) (expenses trip_group)"
    by code_simp
  then have "\<forall>e \<in> set (expenses trip_group).
         paid_by e \<in> pid ` set (participants trip_group)
         \<and> (\<forall>s \<in> set (splits e). participant_id s \<in> pid ` set (participants trip_group))"
    by (simp add: list_all_iff refs_known_def)
  with bad good get_balances_KeyError_iff [of ghost_group]
    get_balances_KeyError_iff [of trip_group]
  show ?thesis by blast
qed

section \<open>C10: the two divisions\<close>

text \<open>
  C10 (as amended). \<open>add_expense_equal\<close> raises exactly when the participant list is
  empty, and then it is a ZeroDivisionError, with nothing appended. \<open>add_expense_shares\<close>
  never raises. Its \<open>total_shares\<close> is the 64-bit sum of the share counts, which wraps.
  When there are shares and \<open>total_shares\<close> is 0 the division is numpy's: every amount is
  inf, -inf or nan, and an expense with one such split per share, in the order of the
  shares, is appended to the group all the same. With no shares, or with
  \<open>total_shares\<close> other than 0, the call returns an expense with finite amounts and
  appends it.
\<close>

theorem division_by_zero_cases:
  "((\<exists>err. fst (add_expense_equal g descr t paid participants_arg cur cat) = Inl err)
      \<longleftrightarrow> (case participants_arg of None \<Rightarrow> map pid (participants g) | Some l \<Rightarrow> l) = [])
   \<and> (\<forall>err. fst (add_expense_equal g descr t paid participants_arg cur cat) = Inl err
        \<longrightarrow> err = ZeroDivisionError
            \<and> snd (add_expense_equal g descr t paid participants_arg cur cat) = g)
   \<and> (\<forall>err g'. add_expense_shares g descr t paid shs cur cat \<noteq> Finite (Inl err, g'))
   \<and> (shs \<noteq> [] \<and> sint (sum_list (map snd shs)) = 0 \<longrightarrow>
        (\<exists>e. add_expense_shares g descr t paid shs cur cat
               = Inf_or_NaN (e, (float_group g)\<lparr>fg_expenses :=
                                   map float_expense (expenses g) @ [e]\<rparr>)
           \<and> map fs_participant_id (fe_splits e) = map fst shs
           \<and> (\<forall>s \<in> set (fe_splits e). fs_amount s \<in> {PosInf, NegInf, NaN})))
   \<and> (shs = [] \<or> sint (sum_list (map snd shs)) \<noteq> 0 \<longrightarrow>
        (\<exists>e. add_expense_shares g descr t paid shs cur cat
               = Finite (Inr e, g\<lparr>expenses := expenses g @ [e]\<rparr>)))"
proof (intro conjI)
  show "(\<exists>err. fst (add_expense_equal g descr t paid participants_arg cur cat) = Inl err)
      \<longleftrightarrow> (case participants_arg of None \<Rightarrow> map pid (participants g) | Some l \<Rightarrow> l) = []"
    by (auto simp: add_expense_equal_def Let_def)
  show "\<forall>err. fst (add_expense_equal g descr t paid participants_arg cur cat) = Inl err
        \<longrightarrow> err = ZeroDivisionError
            \<and> snd (add_expense_equal g descr t paid participants_arg cur cat) = g"
    by (auto simp: add_expense_equal_def Let_def)
  show "\<forall>err g'. add_expense_shares g descr t paid shs cur cat \<noteq> Finite (Inl err, g')"
    by (auto simp: add_expense_shares_def Let_def split: option.splits)
  show "shs \<noteq> [] \<and> sint (sum_list (map snd shs)) = 0 \<longrightarrow>
        (\<exists>e. add_expense_shares g descr t paid shs cur cat
               = Inf_or_NaN (e, (float_group g)\<lparr>fg_expenses :=
                                   map float_expense (expenses g) @ [e]\<rparr>)
           \<and> map fs_participant_id (fe_splits e) = map fst shs
           \<and> (\<forall>s \<in> set (fe_splits e). fs_amount s \<in> {PosInf, NegInf, NaN}))"
  proof
    assume a: "shs \<noteq> [] \<and> sint (sum_list (map snd shs)) = 0"
    then have z: "sum_list (map snd shs) = 0" by (simp add: signed_eq_0_iff)
    have f: "fg_expenses (float_group g) = map float_expense (expenses g)"
      by (simp add: float_group_def)
    from a z add_expense_shares_nonfinite [of shs g descr t paid cur cat]
    show "\<exists>e. add_expense_shares g descr t paid shs cur cat
               = Inf_or_NaN (e, (float_group g)\<lparr>fg_expenses :=
                                   map float_expense (expenses g) @ [e]\<rparr>)
           \<and> map fs_participant_id (fe_splits e) = map fst shs
           \<and> (\<forall>s \<in> set (fe_splits e). fs_amount s \<in> {PosInf, NegInf, NaN})"
      unfolding f by blast
  qed
  show "shs = [] \<or> sint (sum_list (map snd shs)) \<noteq> 0 \<longrightarrow>
        (\<exists>e. add_expense_shares g descr t paid shs cur cat
               = Finite (Inr e, g\<lparr>expenses := expenses g @ [e]\<rparr>))"
  proof
    assume "shs = [] \<or> sint (sum_list (map snd shs)) \<noteq> 0"
    then have "shs = [] \<or> sum_list (map snd shs) \<noteq> 0" by (auto simp: signed_eq_0_iff)
    from add_expense_shares_finite [OF this, of g descr t paid cur cat]
    show "\<exists>e. add_expense_shares g descr t paid shs cur cat
               = Finite (Inr e, g\<lparr>expenses := expenses g @ [e]\<rparr>)"
      by (simp add: Let_def)
  qed
qed

theorem division_by_zero_cases_witness:
  "fst (add_expense_equal demo_group ''Dinner'' 90 ''p1'' (Some []) ''BGN'' None)
     = Inl ZeroDivisionError
   \<and> snd (add_expense_equal demo_group ''Dinner'' 90 ''p1'' (Some []) ''BGN'' None)
     = demo_group
   \<and> (\<exists>e. add_expense_shares demo_group ''Pizza'' 40 ''p2''
              [(''p1'', 0), (''p2'', 0)] ''BGN'' None
            = Inf_or_NaN (e, (float_group demo_group)\<lparr>fg_expenses :=
                                map float_expense (expenses demo_group) @ [e]\<rparr>)
        \<and> map fs_participant_id (fe_splits e) = [''p1'', ''p2'']
        \<and> list_all (\<lambda>s. fs_amount s \<in> {PosInf, NegInf, NaN}) (fe_splits e))
   \<and> (\<exists>e. add_expense_shares demo_group ''Pizza'' 40 ''p2''
              [(''p1'', 2), (''p2'', 1), (''p3'', 1)] ''BGN'' None
            = Finite (Inr e, demo_group\<lparr>expenses := expenses demo_group @ [e]\<rparr>))"
proof -
  have a: "(case Some [] of None \<Rightarrow> map pid (participants demo_group) | Some l \<Rightarrow> l) = []"
    by simp
  have b: "[(''p1'', 0 :: 64 word), (''p2'', 0)] \<noteq> []
      \<and> sint (sum_list (map snd [(''p1'', 0 :: 64 word), (''p2'', 0)])) = 0" by simp
  have c: "[(''p1'', 2 :: 64 word), (''p2'', 1), (''p3'', 1)] = []
      \<or> sint (sum_list (map snd [(''p1'', 2 :: 64 word), (''p2'', 1), (''p3'', 1)])) \<noteq> 0"
    by simp
  have m: "map fst [(''p1'', 0 :: 64 word), (''p2'', 0)] = [''p1'', ''p2'']" by simp
  note d1 = division_by_zero_cases [of demo_group "''Dinner''" 90 "''p1''" "Some []"
      "''BGN''" None "[(''p1'', 0), (''p2'', 0)]"]
  note d2 = division_by_zero_cases [of demo_group "''Pizza''" 40 "''p2''" "Some []"
      "''BGN''" None "[(''p1'', 0), (''p2'', 0)]"]
  note d3 = division_by_zero_cases [of demo_group "''Pizza''" 40 "''p2''" "Some []"
      "''BGN''" None "[(''p1'', 2), (''p2'', 1), (''p3'', 1)]"]
  have e1: "fst (add_expense_equal demo_group ''Dinner'' 90 ''p1'' (Some []) ''BGN'' None)
     = Inl ZeroDivisionError
   \<and> snd (add_expense_equal demo_group ''Dinner'' 90 ''p1'' (Some []) ''BGN'' None)
     = demo_group"
    using a d1 by metis
  have e2: "\<exists>e. add_expense_shares demo_group ''Pizza'' 40 ''p2''
              [(''p1'', 0), (''p2'', 0)] ''BGN'' None
            = Inf_or_NaN (e, (float_group demo_group)\<lparr>fg_expenses :=
                                map float_expense (expenses demo_group) @ [e]\<rparr>)
        \<and> map fs_participant_id (fe_splits e) = [''p1'', ''p2'']
        \<and> list_all (\<lambda>s. fs_amount s \<in> {PosInf, NegInf, NaN}) (fe_splits e)"
    using b d2 unfolding m list_all_iff by blast
  have e3: "\<exists>e. add_expense_shares demo_group ''Pizza'' 40 ''p2''
              [(''p1'', 2), (''p2'', 1), (''p3'', 1)] ''BGN'' None
            = Finite (Inr e, demo_group\<lparr>expenses := expenses demo_group @ [e]\<rparr>)"
    using c d3 by blast
  show ?thesis using e1 e2 e3 by blast
qed

text \<open>
  Shares 0 and 0 sum to 0 and the call does not raise: it returns an expense whose two
  amounts are nan and leaves that expense in the group.
\<close>

theorem add_expense_shares_zero_counterexample:
  "sint (sum_list (map snd [(''p1'', 0 :: 64 word), (''p2'', 0)])) = 0
   \<and> add_expense_shares demo_group ''Pizza'' 40 ''p2'' [(''p1'', 0), (''p2'', 0)] ''BGN'' None
     = Inf_or_NaN
         (\<lparr>fe_description = ''Pizza'', fe_total_amount = 40, fe_paid_by = ''p2'',
            fe_currency = ''BGN'', fe_split_method = SHARES,
            fe_splits = [\<lparr>fs_participant_id = ''p1'', fs_amount = NaN,
                            fs_percentage = None, fs_shares = Some 0\<rparr>,
                         \<lparr>fs_participant_id = ''p2'', fs_amount = NaN,
                            fs_percentage = None, fs_shares = Some 0\<rparr>],
            fe_is_recurring = False, fe_category = None\<rparr>,
          \<lparr>fg_group_name = ''Test Group'',
             fg_participants = [\<lparr>name = ''Ivan'', pid = ''p1'', email = None\<rparr>,
                                \<lparr>name = ''Maria'', pid = ''p2'', email = None\<rparr>,
                                \<lparr>name = ''Georgi'', pid = ''p3'', email = None\<rparr>],
             fg_expenses =
               [\<lparr>fe_description = ''Pizza'', fe_total_amount = 40, fe_paid_by = ''p2'',
                   fe_currency = ''BGN'', fe_split_method = SHARES,
                   fe_splits = [\<lparr>fs_participant_id = ''p1'', fs_amount = NaN,
                                   fs_percentage = None, fs_shares = Some 0\<rparr>,
                                \<lparr>fs_participant_id = ''p2'', fs_amount = NaN,
                                   fs_percentage = None, fs_shares = Some 0\<rparr>],
                   fe_is_recurring = False, fe_category = None\<rparr>],
             fg_base_currency = ''BGN''\<rparr>)
   \<and> add_expense_shares demo_group ''Pizza'' 40 ''p2'' [(''p1'', 0), (''p2'', 0)] ''BGN'' None
       \<noteq> Finite (Inl ZeroDivisionError, demo_group)"
  by (simp add: add_expense_shares_def demo_group_def float_group_def np_true_divide_def Let_def)

end
